theory Spec2Isabelle
  imports Main "HOL-Library.Monad_Syntax"
begin

section \<open>The SIM900 modem driver (sim9.c, sim9.h)\<close>

text \<open>
  The driver talks to the modem through a serial port owned by a separate USART library.
  Every function of sim9.c is translated below as a function on the session structure
  \<open>struct sim9_t\<close>, which is passed in and returned. A result \<open>None\<close> stands for a
  write or read outside a buffer (undefined behaviour in C); all loops of the driver are
  bounded, so \<open>None\<close> never stands for a call that does not return.

  Integers: every \<open>uint8_t\<close> parameter (count, size, timeout, type) is a \<open>nat\<close>; the
  conversions that can wrap (\<open>flags.eol + 1\<close> and \<open>strnlen_P(..) + 1\<close> stored in a
  \<open>uint8_t\<close>, \<open>rx->size\<close> stored in a \<open>uint8_t\<close>) are written \<open>mod 256\<close>.
  In \<open>sim9_msg\<close> the product \<open>timeout * 100\<close> is at most 25500 for a \<open>uint8_t\<close>
  timeout and fits the 16-bit loop counter, so it is left as it is.

  The build modelled is the default one: \<open>SIM9_DEBUG_PORT\<close> is not defined, so the debug
  output is not compiled in. Left out are the functions that no property below needs and
  that only drive pins or the raw port: \<open>sim9_on\<close> (the power pulse and the bring-up
  sequence), \<open>sim9_shut\<close>, \<open>sim9_wait4char\<close>, \<open>sim9_suspend\<close> and \<open>sim9_resume\<close>.
\<close>

subsection \<open>Bytes and C strings\<close>

abbreviation NUL :: char where "NUL \<equiv> CHR 0x00"
abbreviation CR :: char where "CR \<equiv> CHR 0x0D"
abbreviation LF :: char where "LF \<equiv> CHR 0x0A"

text \<open>A buffer is the list of its bytes, its capacity is the list's length. The C string
  held by a buffer ends before the first zero byte.\<close>

definition c_str :: "string \<Rightarrow> string" where
  "c_str b = takeWhile (\<lambda>c. c \<noteq> NUL) b"

definition strlen :: "string \<Rightarrow> nat" where
  "strlen b = length (c_str b)"

text \<open>\<open>strncmp(a, b, n) == 0\<close> on two C strings given without their terminators.\<close>

fun strncmp_is0 :: "string \<Rightarrow> string \<Rightarrow> nat \<Rightarrow> bool" where
  "strncmp_is0 a b 0 = True"
| "strncmp_is0 [] [] (Suc n) = True"
| "strncmp_is0 [] (y # ys) (Suc n) = False"
| "strncmp_is0 (x # xs) [] (Suc n) = False"
| "strncmp_is0 (x # xs) (y # ys) (Suc n) = (x = y \<and> strncmp_is0 xs ys n)"

text \<open>\<open>strstr(hay, needle) != NULL\<close> on two C strings given without their terminators.\<close>

fun strstr_found :: "string \<Rightarrow> string \<Rightarrow> bool" where
  "strstr_found [] needle = (needle = [])"
| "strstr_found (h # hs) needle =
     (strncmp_is0 needle (h # hs) (length needle) \<or> strstr_found hs needle)"

text \<open>\<open>memcmp(b + off, pat, n) == 0\<close>: the \<open>n\<close> raw bytes of the buffer from \<open>off\<close> on,
  whatever lies behind a terminator. Every call of the driver stays inside the block it
  has allocated (12 and 11 bytes of 20, 9 of 15, 5 bytes from offsets 12 and 13 of 30).\<close>

definition memcmp_is0 :: "string \<Rightarrow> nat \<Rightarrow> string \<Rightarrow> nat \<Rightarrow> bool" where
  "memcmp_is0 b off pat n = (take n (drop off b) = take n pat)"

subsection \<open>The session structure\<close>

text \<open>The bit fields of \<open>status\<close> and \<open>errors\<close>: a one-bit field is a \<open>bool\<close>, a wider
  field a \<open>nat\<close>. The union member \<open>all\<close> is written only as \<open>all = 0\<close> and read only as
  \<open>!all\<close>; both are definitions below.\<close>

record status_t =
  st_ready :: bool
  st_gprs :: bool
  st_cid :: bool
  st_sapbr :: bool
  st_http :: bool
  st_provider :: nat
  st_tsmode :: bool
  st_tcpip :: nat
  st_echo :: bool
  st_connected :: bool
  st_unused :: nat

record errors_t =
  er_init :: bool
  er_off :: bool
  er_pin :: bool
  er_imei :: bool
  er_apn :: bool
  er_tcpip :: bool
  er_netreg :: bool
  er_discon :: bool
  er_gprs :: bool
  er_esc :: bool
  er_connected :: bool
  er_gps :: bool
  er_unused :: nat

definition status_all_0 :: status_t where
  "status_all_0 = \<lparr>st_ready = False, st_gprs = False, st_cid = False, st_sapbr = False,
     st_http = False, st_provider = 0, st_tsmode = False, st_tcpip = 0, st_echo = False,
     st_connected = False, st_unused = 0\<rparr>"

definition errors_all_0 :: errors_t where
  "errors_all_0 = \<lparr>er_init = False, er_off = False, er_pin = False, er_imei = False,
     er_apn = False, er_tcpip = False, er_netreg = False, er_discon = False,
     er_gprs = False, er_esc = False, er_connected = False, er_gps = False,
     er_unused = 0\<rparr>"

text \<open>
  Modelled from the spec: the Transport (the USART library, usart.h, is not part of the
  sources). The spec gives it a send operation, a "dequeue one framed message" operation
  that truncates to the caller's capacity, a line-ready signal set by the receive path, a
  buffer-clear operation and fixed receive and transmit capacities.
  \<^item> \<open>rxq\<close>: the complete lines waiting in the receive buffer, each with its line
    terminator; \<open>flags.eol\<close> is their number.
  \<^item> \<open>wire\<close>: what the receive path will deliver, as the lines completed during each
    coming 10 ms of \<open>_delay_ms\<close> (every delay of the driver is a multiple of 10 ms).
  \<^item> \<open>tx\<close>: the transmit buffer, \<open>tx_size\<close> its length; \<open>txlog\<close>: every string sent so
    far, one entry for each call of \<open>usart_printstr\<close>.
\<close>

record usart_t =
  rx_size :: nat
  rxq :: "string list"
  wire :: "string list list"
  tx :: string
  txlog :: "string list"

text \<open>\<open>struct sim9_t\<close>. \<open>tx_buf\<close> is an alias of \<open>usart->tx\<close> and has no field of its own.
  \<open>heap\<close> is not a member of the structure: it gives the byte found at each offset of a
  block that \<open>malloc\<close> returns, which C leaves indeterminate.\<close>

record sim9_t =
  status :: status_t
  errors :: errors_t
  flags :: nat
  imei :: string
  gps_lat :: string
  gps_lon :: string
  usart :: usart_t
  heap :: "nat \<Rightarrow> char"

definition malloc :: "sim9_t \<Rightarrow> nat \<Rightarrow> string" where
  "malloc w n = map (heap w) [0..<n]"

text \<open>Modelled from the spec: the Transport's line-ready signal, \<open>sim9->usart->flags.eol\<close>,
  as the number of complete lines waiting.\<close>

definition eol :: "sim9_t \<Rightarrow> nat" where
  "eol w = length (rxq (usart w))"

text \<open>Modelled from the spec: what the Transport's receive path does while the driver sits
  in \<open>_delay_ms(ms)\<close>: the lines completed during each 10 ms join the waiting lines.\<close>

definition delay_ms :: "nat \<Rightarrow> sim9_t \<Rightarrow> sim9_t" where
  "delay_ms ms w =
     w\<lparr>usart := (usart w)\<lparr>rxq := rxq (usart w) @ concat (take (ms div 10) (wire (usart w))),
                            wire := drop (ms div 10) (wire (usart w))\<rparr>\<rparr>"

text \<open>Modelled from the spec: the Transport's dequeue operation,
  \<open>usart_getmsg(port, s, size)\<close>. The first waiting line is copied into \<open>s\<close>, cut to
  \<open>size\<close> bytes, and leaves the queue; the number of bytes copied is returned.\<close>

definition usart_getmsg :: "string \<Rightarrow> nat \<Rightarrow> sim9_t \<Rightarrow> (nat \<times> string \<times> sim9_t) option" where
  "usart_getmsg s sz w =
     (case rxq (usart w) of
        [] \<Rightarrow> Some (0, s, w)
      | l # ls \<Rightarrow>
          let n = min sz (length l) in
          if n \<le> length s
          then Some (n, take n l @ drop n s, w\<lparr>usart := (usart w)\<lparr>rxq := ls\<rparr>\<rparr>)
          else None)"

text \<open>Modelled from the spec: the Transport's buffer-clear operation.\<close>

definition usart_clear_rx_buffer :: "sim9_t \<Rightarrow> sim9_t" where
  "usart_clear_rx_buffer w = w\<lparr>usart := (usart w)\<lparr>rxq := []\<rparr>\<rparr>"

text \<open>Modelled from the spec: the Transport's send operation, \<open>usart_printstr(port, s)\<close>
  with \<open>s\<close> not NULL.\<close>

definition usart_printstr :: "string \<Rightarrow> sim9_t \<Rightarrow> sim9_t" where
  "usart_printstr s w = w\<lparr>usart := (usart w)\<lparr>txlog := txlog (usart w) @ [s]\<rparr>\<rparr>"

text \<open>Modelled from the spec: the Transport's send operation with NULL,
  \<open>usart_printstr(port, NULL)\<close>: the C string in the transmit buffer is sent.\<close>

definition usart_printstr_tx :: "sim9_t \<Rightarrow> sim9_t option" where
  "usart_printstr_tx w =
     (if NUL \<in> set (tx (usart w)) then Some (usart_printstr (c_str (tx (usart w))) w)
      else None)"

subsection \<open>Sending\<close>

definition sim9_send :: "string \<Rightarrow> sim9_t \<Rightarrow> sim9_t" where
  "sim9_send s w = usart_printstr s w"

text \<open>\<open>strncpy_P(dst, src, n)\<close>: \<open>n\<close> bytes are written, the string and then zero bytes.\<close>

definition strncpy :: "string \<Rightarrow> string \<Rightarrow> nat \<Rightarrow> string option" where
  "strncpy dst src n =
     (if n \<le> length dst then Some (take n (src @ replicate n NUL) @ drop n dst) else None)"

definition sim9_send_P :: "string \<Rightarrow> sim9_t \<Rightarrow> sim9_t option" where
  "sim9_send_P s w = do {
     t \<leftarrow> strncpy (tx (usart w)) s (length (tx (usart w)));
     usart_printstr_tx (w\<lparr>usart := (usart w)\<lparr>tx := t\<rparr>\<rparr>)
   }"

definition sim9_clear_rx_buff :: "sim9_t \<Rightarrow> sim9_t" where
  "sim9_clear_rx_buff w = usart_clear_rx_buffer w"

subsection \<open>The Message Reader\<close>

text \<open>One pass of the body of the \<open>do ... while\<close> of \<open>sim9_msg\<close>: wait 10 ms, and if a line
  is ready fetch it; a line of fewer than 3 bytes counts as no message.\<close>

definition sim9_msg_poll :: "string \<Rightarrow> nat \<Rightarrow> sim9_t \<Rightarrow> (nat \<times> string \<times> sim9_t) option" where
  "sim9_msg_poll s sz w =
     (let w1 = delay_ms 10 w in
      if eol w1 \<noteq> 0 then do {
        (len, s', w2) \<leftarrow> usart_getmsg s sz w1;
        Some (if len < 3 then 0 else len, s', w2)
      } else Some (0, s, w1))"

text \<open>\<open>do body while (!len && loop--)\<close>: with the counter at \<open>loop\<close> the body runs once
  and, while nothing was read, \<open>loop\<close> more times.\<close>

fun sim9_msg_loop :: "nat \<Rightarrow> string \<Rightarrow> nat \<Rightarrow> sim9_t \<Rightarrow> (nat \<times> string \<times> sim9_t) option" where
  "sim9_msg_loop 0 s sz w = sim9_msg_poll s sz w"
| "sim9_msg_loop (Suc loop) s sz w = do {
     (len, s', w') \<leftarrow> sim9_msg_poll s sz w;
     if len = 0 then sim9_msg_loop loop s' sz w' else Some (len, s', w')
   }"

definition sim9_msg :: "string \<Rightarrow> nat \<Rightarrow> nat \<Rightarrow> sim9_t \<Rightarrow> (nat \<times> string \<times> sim9_t) option" where
  "sim9_msg s sz timeout w = do {
     (len, s', w') \<leftarrow> sim9_msg_loop (timeout * 100) s sz w;
     if len \<noteq> 0
     then (if len - 2 < length s' then Some (len, s'[len - 2 := NUL], w') else None)
     else Some (0, s', w')
   }"

subsection \<open>The Pattern Matcher\<close>

definition EQUAL :: nat where [simp]: "EQUAL = 0"
definition RELAX :: nat where [simp]: "RELAX = 1"
definition STRICT :: nat where [simp]: "STRICT = 2"
definition EEQUAL :: nat where [simp]: "EEQUAL = 3"
definition ERELAX :: nat where [simp]: "ERELAX = 4"
definition ESTRICT :: nat where [simp]: "ESTRICT = 5"

text \<open>The \<open>switch (type)\<close> of \<open>sim9_searchfor\<close>, applied to a message just read: the pair
  is the new value of \<open>ok\<close> (which was FALSE) and the value of \<open>check_error\<close> behind the
  switch. \<open>case ERELAX\<close> falls through to \<open>case RELAX\<close>, \<open>case EEQUAL\<close> to \<open>case EQUAL\<close>
  and \<open>default\<close>, where every other code lands.\<close>

definition search_switch :: "nat \<Rightarrow> string \<Rightarrow> string \<Rightarrow> bool \<times> bool" where
  "search_switch type s buffer =
     (if type = ERELAX then (strstr_found (c_str buffer) s, True)
      else if type = RELAX then (strstr_found (c_str buffer) s, False)
      else if type = EEQUAL then (strncmp_is0 s (c_str buffer) (length s), True)
      else (strncmp_is0 s (c_str buffer) (length s), False))"

text \<open>One pass of the body of the \<open>do ... while\<close> of \<open>sim9_searchfor\<close>. The second
  component says that the body has executed \<open>count = 0\<close>.\<close>

definition sim9_searchfor_body ::
  "string \<Rightarrow> nat \<Rightarrow> string \<Rightarrow> nat \<Rightarrow> sim9_t \<Rightarrow> (bool \<times> bool \<times> string \<times> sim9_t) option" where
  "sim9_searchfor_body s type buffer sz w = do {
     (len, buffer', w') \<leftarrow> sim9_msg buffer sz 1 w;
     if len \<noteq> 0 then
       (let (ok, check_error) = search_switch type s buffer'
        in Some (ok, \<not> ok \<and> check_error \<and> c_str buffer' = ''ERROR'', buffer', w'))
     else Some (False, False, buffer', w')
   }"

text \<open>\<open>do body while (!ok && count--)\<close>: the loop is left when \<open>ok\<close> is set, when the body
  has zeroed \<open>count\<close>, or when \<open>count\<close> is found at 0; otherwise \<open>count\<close> goes down by
  one and the body runs again.\<close>

fun sim9_searchfor_loop ::
  "nat \<Rightarrow> string \<Rightarrow> nat \<Rightarrow> string \<Rightarrow> nat \<Rightarrow> sim9_t \<Rightarrow> (bool \<times> string \<times> sim9_t) option" where
  "sim9_searchfor_loop 0 s type buffer sz w = do {
     (ok, zeroed, buffer', w') \<leftarrow> sim9_searchfor_body s type buffer sz w;
     Some (ok, buffer', w')
   }"
| "sim9_searchfor_loop (Suc count) s type buffer sz w = do {
     (ok, zeroed, buffer', w') \<leftarrow> sim9_searchfor_body s type buffer sz w;
     if ok \<or> zeroed then Some (ok, buffer', w')
     else sim9_searchfor_loop count s type buffer' sz w'
   }"

text \<open>\<open>extbuff\<close> is \<open>None\<close> for a NULL pointer; the buffer handed back is the caller's
  buffer as the call leaves it.\<close>

definition sim9_searchfor ::
  "string \<Rightarrow> nat \<Rightarrow> string option \<Rightarrow> nat \<Rightarrow> nat \<Rightarrow> sim9_t
     \<Rightarrow> (bool \<times> string option \<times> sim9_t) option" where
  "sim9_searchfor s count extbuff extsize type w =
     (let (sz, buffer) =
            (case extbuff of
               Some b \<Rightarrow> (extsize, b)
             | None \<Rightarrow> (rx_size (usart w) mod 256, malloc w (rx_size (usart w) mod 256)))
      in if buffer = [] then None
         else do {
           (ok, buffer', w') \<leftarrow> sim9_searchfor_loop count s type (buffer[0 := NUL]) sz w;
           Some (ok, map_option (\<lambda>b. buffer') extbuff, w')
         })"

text \<open>The PROGMEM variants copy the string into a fresh block of
  \<open>strnlen_P(s, rx->size) + 1\<close> bytes, the sum stored in a \<open>uint8_t\<close>.\<close>

definition ram_copy_P :: "string \<Rightarrow> sim9_t \<Rightarrow> string option" where
  "ram_copy_P s w =
     (let sz = (min (length s) (rx_size (usart w)) + 1) mod 256 in
      if sz = 0 then None
      else do {
        buffer \<leftarrow> strncpy (malloc w sz) s sz;
        Some (c_str (buffer[sz - 1 := NUL]))
      })"

definition sim9_searchfor_P ::
  "string \<Rightarrow> nat \<Rightarrow> string option \<Rightarrow> nat \<Rightarrow> nat \<Rightarrow> sim9_t
     \<Rightarrow> (bool \<times> string option \<times> sim9_t) option" where
  "sim9_searchfor_P s count extbuff extsize type w = do {
     buffer \<leftarrow> ram_copy_P s w;
     sim9_searchfor buffer count extbuff extsize type w
   }"

subsection \<open>The Command Session\<close>

definition SENDAT_TYPE_NONE :: nat where [simp]: "SENDAT_TYPE_NONE = 0"
definition SENDAT_TYPE_OK :: nat where [simp]: "SENDAT_TYPE_OK = 1"
definition SENDAT_TYPE_MSGOK :: nat where [simp]: "SENDAT_TYPE_MSGOK = 2"
definition SENDAT_TYPE_MSG :: nat where [simp]: "SENDAT_TYPE_MSG = 3"

text \<open>The first half of \<open>sim9_send_at\<close>: the command, the carriage return and, with echo
  enabled, the line feed, the 100 ms wait and the search for the echoed command. The
  result is the value of \<open>ok\<close> in front of the second 100 ms wait.\<close>

definition send_at_echo :: "string \<Rightarrow> sim9_t \<Rightarrow> (bool \<times> sim9_t) option" where
  "send_at_echo cmd w = do {
     w1 \<leftarrow> sim9_send_P [CR] (sim9_send cmd w);
     if st_echo (status w1) then do {
       w2 \<leftarrow> sim9_send_P [LF] w1;
       (ok, b, w3) \<leftarrow> sim9_searchfor cmd ((eol (delay_ms 100 w2) + 1) mod 256) None 0 EEQUAL
                       (delay_ms 100 w2);
       Some (ok, w3)
     } else Some (True, w1)
   }"

text \<open>\<open>ok = ok && sim9_msg(msg, size, eol + 1)\<close> and \<open>ok = ok && sim9_searchfor_P("OK", eol
  + 1, NULL, 0, EEQUAL)\<close>: the right operand of \<open>&&\<close> is evaluated only when \<open>ok\<close> is
  true.\<close>

definition and_sim9_msg :: "bool \<Rightarrow> string \<Rightarrow> nat \<Rightarrow> sim9_t \<Rightarrow> (bool \<times> string \<times> sim9_t) option" where
  "and_sim9_msg ok msg sz w =
     (if ok then do {
        (len, msg', w') \<leftarrow> sim9_msg msg sz ((eol w + 1) mod 256) w;
        Some (len \<noteq> 0, msg', w')
      } else Some (False, msg, w))"

definition and_search_OK :: "bool \<Rightarrow> sim9_t \<Rightarrow> (bool \<times> sim9_t) option" where
  "and_search_OK ok w =
     (if ok then do {
        (found, b, w') \<leftarrow> sim9_searchfor_P ''OK'' ((eol w + 1) mod 256) None 0 EEQUAL w;
        Some (found, w')
      } else Some (False, w))"

text \<open>\<open>msg\<close> is the caller's buffer (the empty buffer for NULL with size 0); it is handed
  back as the call leaves it.\<close>

definition sim9_send_at ::
  "string \<Rightarrow> string \<Rightarrow> nat \<Rightarrow> nat \<Rightarrow> sim9_t \<Rightarrow> (bool \<times> string \<times> sim9_t) option" where
  "sim9_send_at cmd msg sz type w = do {
     (ok, w1) \<leftarrow> send_at_echo cmd w;
     if type = SENDAT_TYPE_MSGOK then do {
       (ok1, msg', w2) \<leftarrow> and_sim9_msg ok msg sz (delay_ms 100 w1);
       (ok2, w3) \<leftarrow> and_search_OK ok1 w2;
       Some (ok2, msg', w3)
     } else if type = SENDAT_TYPE_OK then do {
       (ok2, w3) \<leftarrow> and_search_OK ok (delay_ms 100 w1);
       Some (ok2, msg, w3)
     } else if type = SENDAT_TYPE_MSG then
       and_sim9_msg ok msg sz (delay_ms 100 w1)
     else Some (ok, msg, delay_ms 100 w1)
   }"

definition sim9_send_at_P ::
  "string \<Rightarrow> string \<Rightarrow> nat \<Rightarrow> nat \<Rightarrow> sim9_t \<Rightarrow> (bool \<times> string \<times> sim9_t) option" where
  "sim9_send_at_P cmd msg msgsize type w = do {
     buffer \<leftarrow> ram_copy_P cmd w;
     sim9_send_at buffer msg msgsize type w
   }"

subsection \<open>The Escape Sequencer\<close>

text \<open>The statement \<open>if (sim9->status.connected) { ... }\<close> that opens the body of
  \<open>while (retry--)\<close> in \<open>sim9_escape\<close>: the guard times, the escape token and, with echo
  enabled, the line end and the search for the echoed token.\<close>

definition escape_sequence :: "sim9_t \<Rightarrow> sim9_t option" where
  "escape_sequence w =
     (if st_connected (status w) then do {
        wa \<leftarrow> sim9_send_P ''+++'' (delay_ms 1000 w);
        if st_echo (status wa) then do {
          wb \<leftarrow> sim9_send_P [CR, LF] (delay_ms 500 wa);
          (found, b, wc) \<leftarrow> sim9_searchfor_P ''+++'' 30 None 0 EQUAL wb;
          Some wc
        } else Some (delay_ms 1000 (delay_ms 500 wa))
      } else Some w)"

text \<open>One pass of the body of \<open>while (retry--)\<close> in \<open>sim9_escape\<close>; the first component
  says that the pass ended in \<open>break\<close>.\<close>

definition sim9_escape_body :: "sim9_t \<Rightarrow> (bool \<times> sim9_t) option" where
  "sim9_escape_body w = do {
     w1 \<leftarrow> escape_sequence w;
     (ok, msg, w2) \<leftarrow> sim9_send_at_P ''AT'' [] 0 SENDAT_TYPE_OK w1;
     if ok then Some (True, w2\<lparr>status := (status w2)\<lparr>st_connected := False\<rparr>\<rparr>)
     else Some (False, w2\<lparr>status := (status w2)\<lparr>st_connected := True\<rparr>\<rparr>)
   }"

fun sim9_escape_loop :: "nat \<Rightarrow> sim9_t \<Rightarrow> sim9_t option" where
  "sim9_escape_loop 0 w = Some w"
| "sim9_escape_loop (Suc retry) w = do {
     (brk, w') \<leftarrow> sim9_escape_body w;
     if brk then Some w' else sim9_escape_loop retry w'
   }"

definition sim9_escape :: "sim9_t \<Rightarrow> sim9_t option" where
  "sim9_escape w = do {
     w' \<leftarrow> sim9_escape_loop 3 w;
     if st_connected (status w') then Some (w'\<lparr>errors := (errors w')\<lparr>er_esc := True\<rparr>\<rparr>)
     else Some (w'\<lparr>errors := (errors w')\<lparr>er_esc := False\<rparr>\<rparr>)
   }"

subsection \<open>Bring-up stages\<close>

definition IMEI_SIZE :: nat where [simp]: "IMEI_SIZE = 18"
definition GPS_LAT_SIZE :: nat where [simp]: "GPS_LAT_SIZE = 12"
definition GPS_LON_SIZE :: nat where [simp]: "GPS_LON_SIZE = 12"

text \<open>\<open>while (sim9->errors.imei && retry--)\<close> of \<open>imei\<close>. The command writes into
  \<open>sim9->imei\<close> itself; nothing inside \<open>sim9_send_at_P\<close> reads that member, so the buffer
  is passed in and stored back.\<close>

fun imei_loop :: "nat \<Rightarrow> sim9_t \<Rightarrow> sim9_t option" where
  "imei_loop 0 w = Some w"
| "imei_loop (Suc retry) w =
     (if er_imei (errors w) then do {
        (ok, msg, w1) \<leftarrow> sim9_send_at_P ''AT+CGSN'' (imei w) IMEI_SIZE SENDAT_TYPE_MSGOK w;
        if ok \<and> 14 < strlen msg
        then imei_loop retry (w1\<lparr>imei := msg, errors := (errors w1)\<lparr>er_imei := False\<rparr>\<rparr>)
        else imei_loop retry (w1\<lparr>imei := msg\<rparr>)
      } else Some w)"

definition imei_get :: "sim9_t \<Rightarrow> sim9_t option" where
  "imei_get w =
     (if imei w = [] then None
      else imei_loop 10
             (sim9_clear_rx_buff
                (w\<lparr>imei := (imei w)[0 := NUL], errors := (errors w)\<lparr>er_imei := True\<rparr>\<rparr>)))"

definition pin_check :: "sim9_t \<Rightarrow> sim9_t option" where
  "pin_check w = do {
     (ok, buffer, w1) \<leftarrow> sim9_send_at_P ''AT+CPIN?'' (malloc w 20) 20 SENDAT_TYPE_MSGOK w;
     if ok \<and> memcmp_is0 buffer 0 ''+CPIN: READY'' 12
     then Some (w1\<lparr>errors := (errors w1)\<lparr>er_pin := False\<rparr>\<rparr>)
     else Some (w1\<lparr>errors := (errors w1)\<lparr>er_pin := True\<rparr>\<rparr>)
   }"

fun network_registered_loop :: "nat \<Rightarrow> string \<Rightarrow> sim9_t \<Rightarrow> sim9_t option" where
  "network_registered_loop 0 buffer w = Some w"
| "network_registered_loop (Suc retry) buffer w =
     (if er_netreg (errors w) then do {
        (ok, buffer', w1) \<leftarrow>
          sim9_send_at_P ''AT+CGREG?'' buffer 20 SENDAT_TYPE_MSGOK (delay_ms 2000 w);
        if ok \<and> memcmp_is0 buffer' 0 ''+CGREG: 0,1'' 11
        then network_registered_loop retry buffer'
               (w1\<lparr>errors := (errors w1)\<lparr>er_netreg := False\<rparr>\<rparr>)
        else network_registered_loop retry buffer' w1
      } else Some w)"

definition network_registered :: "sim9_t \<Rightarrow> sim9_t option" where
  "network_registered w =
     network_registered_loop 5 (malloc w 20) (w\<lparr>errors := (errors w)\<lparr>er_netreg := True\<rparr>\<rparr>)"

text \<open>\<open>sim9_init\<close> reads and writes the global pointer \<open>sim9\<close>, here \<open>None\<close> for NULL; the
  value returned is the new value of the pointer. \<open>u\<close> is the port that
  \<open>usart_init\<close> returns, \<open>h\<close> the content of fresh memory.\<close>

definition sim9_init :: "usart_t \<Rightarrow> (nat \<Rightarrow> char) \<Rightarrow> sim9_t option \<Rightarrow> sim9_t option" where
  "sim9_init u h sim9 =
     (case sim9 of
        None \<Rightarrow>
          Some \<lparr>status = status_all_0, errors = errors_all_0, flags = 0,
                imei = (map h [0..<IMEI_SIZE])[0 := NUL],
                gps_lat = (map h [0..<GPS_LAT_SIZE])[0 := NUL],
                gps_lon = (map h [0..<GPS_LON_SIZE])[0 := NUL],
                usart = u, heap = h\<rparr>
      | Some w \<Rightarrow> Some w)"

definition sim9_off :: "sim9_t \<Rightarrow> sim9_t option" where
  "sim9_off w = do {
     w1 \<leftarrow> sim9_send_P (''AT+CPOWD=1'' @ [CR]) w;
     (found, b, w2) \<leftarrow> sim9_searchfor_P ''NORMAL POWER DOWN'' 5 None 0 RELAX w1;
     if found then Some (w2\<lparr>status := (status w2)\<lparr>st_ready := False\<rparr>\<rparr>)
     else Some (w2\<lparr>errors := (errors w2)\<lparr>er_off := True\<rparr>\<rparr>)
   }"

subsection \<open>The Bearer stages\<close>

definition check_cgatt :: "sim9_t \<Rightarrow> sim9_t option" where
  "check_cgatt w = do {
     (ok, buffer, w1) \<leftarrow> sim9_send_at_P ''AT+CGATT?'' (malloc w 15) 15 SENDAT_TYPE_MSGOK w;
     if ok then
       (if \<not> memcmp_is0 buffer 0 ''+CGATT: 1'' 9
        then Some (w1\<lparr>status := (status w1)\<lparr>st_gprs := False\<rparr>\<rparr>)
        else Some (w1\<lparr>status := (status w1)\<lparr>st_gprs := True\<rparr>\<rparr>))
     else Some (w1\<lparr>errors := (errors w1)\<lparr>er_gprs := True\<rparr>\<rparr>)
   }"

text \<open>\<open>do check_cgatt(); while (!sim9->status.gprs && retry--)\<close> of \<open>gprs_connect\<close> and
  \<open>do check_cgatt(); while (sim9->status.gprs && retry--)\<close> of \<open>gprs_disconnect\<close>.\<close>

fun gprs_connect_loop :: "nat \<Rightarrow> sim9_t \<Rightarrow> sim9_t option" where
  "gprs_connect_loop 0 w = check_cgatt w"
| "gprs_connect_loop (Suc retry) w = do {
     w' \<leftarrow> check_cgatt w;
     if \<not> st_gprs (status w') then gprs_connect_loop retry w' else Some w'
   }"

fun gprs_disconnect_loop :: "nat \<Rightarrow> sim9_t \<Rightarrow> sim9_t option" where
  "gprs_disconnect_loop 0 w = check_cgatt w"
| "gprs_disconnect_loop (Suc retry) w = do {
     w' \<leftarrow> check_cgatt w;
     if st_gprs (status w') then gprs_disconnect_loop retry w' else Some w'
   }"

definition gprs_connect :: "sim9_t \<Rightarrow> sim9_t option" where
  "gprs_connect w = do {
     (ok, msg, w1) \<leftarrow> sim9_send_at_P ''AT+CGATT=1'' [] 0 SENDAT_TYPE_OK
                        (w\<lparr>errors := (errors w)\<lparr>er_gprs := False\<rparr>\<rparr>);
     if ok then gprs_connect_loop 5 w1
     else Some (w1\<lparr>errors := (errors w1)\<lparr>er_gprs := True\<rparr>\<rparr>)
   }"

definition gprs_disconnect :: "sim9_t \<Rightarrow> sim9_t option" where
  "gprs_disconnect w = do {
     (ok, msg, w1) \<leftarrow> sim9_send_at_P ''AT+CGATT=0'' [] 0 SENDAT_TYPE_OK
                        (w\<lparr>errors := (errors w)\<lparr>er_gprs := False\<rparr>\<rparr>);
     if ok then gprs_disconnect_loop 5 w1
     else Some (w1\<lparr>errors := (errors w1)\<lparr>er_gprs := True\<rparr>\<rparr>)
   }"

definition apn_setup :: "sim9_t \<Rightarrow> sim9_t option" where
  "apn_setup w = do {
     (ok, msg, w1) \<leftarrow> sim9_send_at_P ''AT+COPS?'' [] 0 SENDAT_TYPE_NONE w;
     (found, sb, w2) \<leftarrow> sim9_searchfor ''+COPS:'' 5 (Some (malloc w 30)) 30 RELAX w1;
     if found then
       (case sb of
          None \<Rightarrow> None
        | Some s \<Rightarrow> do {
            (found', b, w3) \<leftarrow>
              sim9_searchfor_P ''OK'' 5 None 0 RELAX
                (w2\<lparr>status := (status w2)\<lparr>st_provider :=
                   (if memcmp_is0 s 12 ''I TIM'' 5 then 3
                    else if memcmp_is0 s 13 ''odafo'' 5 then 2
                    else 1)\<rparr>\<rparr>);
            Some w3
          })
     else Some (w2\<lparr>status := (status w2)\<lparr>st_provider := 0\<rparr>,
                   errors := (errors w2)\<lparr>er_apn := True\<rparr>\<rparr>)
   }"

definition gprs_wireless_connection :: "sim9_t \<Rightarrow> sim9_t option" where
  "gprs_wireless_connection w = do {
     (ok, msg, w1) \<leftarrow> sim9_send_at_P ''AT+CIICR'' [] 0 SENDAT_TYPE_OK w;
     if \<not> ok then Some (w1\<lparr>errors := (errors w1)\<lparr>er_tcpip := True\<rparr>\<rparr>) else Some w1
   }"

text \<open>\<open>!sim9->errors.all\<close>: every bit of the word is 0.\<close>

definition errors_all_is0 :: "sim9_t \<Rightarrow> bool" where
  "errors_all_is0 w = (errors w = errors_all_0)"

text \<open>The start-task command of \<open>case 1\<close>: the macro names stand inside the string
  literal, so they are sent as they are written.\<close>

definition cstt_others :: string where
  "cstt_others = ''AT+CSTT='' @ [CHR 0x22] @ ''SIM9_APN_SITE'' @ [CHR 0x22] @ '','' @
     [CHR 0x22] @ ''SIM9_APN_USER'' @ [CHR 0x22] @ '','' @
     [CHR 0x22] @ ''SIM9_APN_PASSWORD'' @ [CHR 0x22]"

definition sim9_tcpip_on :: "sim9_t \<Rightarrow> sim9_t option" where
  "sim9_tcpip_on w = do {
     (ok1, m1, w1) \<leftarrow> sim9_send_at_P ''AT+CIPCCFG?'' [] 0 SENDAT_TYPE_OK
                        (w\<lparr>errors := (errors w)\<lparr>er_tcpip := False\<rparr>\<rparr>);
     (ok2, m2, w2) \<leftarrow> (if st_tsmode (status w1)
                        then sim9_send_at_P ''AT+CIPMODE=1'' [] 0 SENDAT_TYPE_OK w1
                        else sim9_send_at_P ''AT+CIPMODE=0'' [] 0 SENDAT_TYPE_OK w1);
     w3 \<leftarrow> gprs_connect w2;
     w4 \<leftarrow> (if st_gprs (status w3) then apn_setup w3 else Some w3);
     w5 \<leftarrow> (if st_provider (status w4) = 1 then do {
               (ok, m, w') \<leftarrow> sim9_send_at_P cstt_others [] 0 SENDAT_TYPE_OK w4;
               Some w'
             } else if st_provider (status w4) = 2 then do {
               (ok, m, w') \<leftarrow> sim9_send_at_P (''AT+CSTT='' @ [CHR 0x22] @ ''web.omnitel.it'' @ [CHR 0x22])
                                [] 0 SENDAT_TYPE_OK w4;
               Some w'
             } else if st_provider (status w4) = 3 then do {
               (ok, m, w') \<leftarrow> sim9_send_at_P (''AT+CSTT='' @ [CHR 0x22] @ ''ibox.tim.it'' @ [CHR 0x22])
                                [] 0 SENDAT_TYPE_OK w4;
               Some w'
             } else Some (w4\<lparr>errors := (errors w4)\<lparr>er_apn := True\<rparr>\<rparr>));
     w6 \<leftarrow> (if errors_all_is0 w5 then gprs_wireless_connection w5 else Some w5);
     if errors_all_is0 w6 then do {
       (ok, s, w7) \<leftarrow> sim9_send_at_P ''AT+CIFSR'' (malloc w6 30) 30 SENDAT_TYPE_MSG w6;
       Some w7
     } else Some w6
   }"

subsection \<open>Vocabulary of the properties\<close>

text \<open>A line qualifies as a message for a reader of capacity \<open>sz\<close> when at least 3 of
  its bytes reach the buffer. \<open>none_qualifying sz polls w\<close>: no line waiting in the
  receive buffer and no line completed during the next \<open>polls\<close> waits of 10 ms
  qualifies.\<close>

definition qualifying :: "nat \<Rightarrow> string \<Rightarrow> bool" where
  "qualifying sz l = (3 \<le> min sz (length l))"

definition none_qualifying :: "nat \<Rightarrow> nat \<Rightarrow> sim9_t \<Rightarrow> bool" where
  "none_qualifying sz polls w =
     list_all (\<lambda>l. \<not> qualifying sz l)
       (rxq (usart w) @ concat (take polls (wire (usart w))))"

text \<open>What a call leaves alone. \<open>session_kept w w'\<close>: every member of the structure but
  the port is unchanged, and so are the content of fresh memory and the capacity of the
  receive buffer. \<open>rx_only w w'\<close>: moreover nothing was sent.\<close>

definition session_kept :: "sim9_t \<Rightarrow> sim9_t \<Rightarrow> bool" where
  "session_kept w w' =
     (status w' = status w \<and> errors w' = errors w \<and> flags w' = flags w \<and>
      imei w' = imei w \<and> gps_lat w' = gps_lat w \<and> gps_lon w' = gps_lon w \<and>
      heap w' = heap w \<and> rx_size (usart w') = rx_size (usart w))"

definition rx_only :: "sim9_t \<Rightarrow> sim9_t \<Rightarrow> bool" where
  "rx_only w w' =
     (session_kept w w' \<and> tx (usart w') = tx (usart w) \<and> txlog (usart w') = txlog (usart w))"

text \<open>How often a command was sent so far.\<close>

definition sent :: "string \<Rightarrow> sim9_t \<Rightarrow> nat" where
  "sent cmd w = count_list (txlog (usart w)) cmd"

subsection \<open>Sessions used as concrete inputs\<close>

text \<open>A port with a 64-byte receive buffer and a 16-byte transmit buffer, nothing
  received and nothing sent, and the session that \<open>sim9_init\<close> builds on it when fresh
  memory holds the byte \<open>#\<close>.\<close>

definition usart_0 :: usart_t where
  "usart_0 = \<lparr>rx_size = 64, rxq = [], wire = [], tx = replicate 16 NUL, txlog = []\<rparr>"

definition sim9_0 :: sim9_t where
  "sim9_0 = the (sim9_init usart_0 (\<lambda>i. CHR ''#'') None)"

text \<open>A line as the modem sends it, and a session whose receive buffer already holds the
  given lines.\<close>

definition line :: "string \<Rightarrow> string" where
  "line s = s @ [CR, LF]"

definition received :: "string list \<Rightarrow> sim9_t \<Rightarrow> sim9_t" where
  "received ls w = w\<lparr>usart := (usart w)\<lparr>rxq := ls\<rparr>\<rparr>"

definition arriving :: "string list list \<Rightarrow> sim9_t \<Rightarrow> sim9_t" where
  "arriving ticks w = w\<lparr>usart := (usart w)\<lparr>wire := ticks\<rparr>\<rparr>"

definition echo_on :: "sim9_t \<Rightarrow> sim9_t" where
  "echo_on w = w\<lparr>status := (status w)\<lparr>st_echo := True\<rparr>\<rparr>"

definition link_up :: "sim9_t \<Rightarrow> sim9_t" where
  "link_up w = w\<lparr>status := (status w)\<lparr>st_connected := True\<rparr>\<rparr>"

definition failed_before :: "sim9_t \<Rightarrow> sim9_t" where
  "failed_before w = w\<lparr>errors := (errors w)\<lparr>er_pin := True, er_gprs := True\<rparr>\<rparr>"

text \<open>The Message Reader is called with timeout 1; the only line, \<open>OK\<close>, is completed
  during the 101st wait of 10 ms, between 1.00 s and 1.01 s after the call.\<close>

definition late_line :: sim9_t where
  "late_line = arriving (replicate 100 [] @ [[line ''OK'']]) sim9_0"

text \<open>Only a blank line arrives, 20 ms into the call; a blank line and \<open>OK\<close> are
  waiting.\<close>

definition blank_line_only :: sim9_t where
  "blank_line_only = arriving [[], [[CR, LF]]] sim9_0"

definition ok_waiting :: sim9_t where
  "ok_waiting = received [[CR, LF], line ''OK''] sim9_0"

text \<open>An unsolicited \<open>RING\<close> is waiting in front of \<open>OK\<close>; the modem has answered
  \<open>ERROR\<close> and then \<open>+CGATT: 1\<close>.\<close>

definition ring_then_ok :: sim9_t where
  "ring_then_ok = received [line ''RING'', line ''OK''] sim9_0"

definition error_then_cgatt :: sim9_t where
  "error_then_cgatt = received [line ''ERROR'', line ''+CGATT: 1''] sim9_0"

text \<open>Echo is enabled. The modem answers \<open>AT+CGSN\<close> with the echo, the identity and
  \<open>OK\<close>; or with \<open>ERROR\<close> and no echo, an unsolicited \<open>RING\<close> behind it; or the same
  answer arrives, blank lines included, within 10 ms of the command; or nothing arrives
  at all.\<close>

definition cgsn_answered :: sim9_t where
  "cgsn_answered =
     echo_on (received [line ''AT+CGSN'', line ''867856030000001'', line ''OK''] sim9_0)"

definition cgsn_refused :: sim9_t where
  "cgsn_refused = echo_on (received [line ''ERROR'', line ''RING''] sim9_0)"

definition cgsn_arriving :: sim9_t where
  "cgsn_arriving =
     echo_on (arriving
       [[line ''AT+CGSN'', [CR, LF], line ''867856030000001'', [CR, LF], line ''OK'']] sim9_0)"

definition silent_modem :: sim9_t where
  "silent_modem = echo_on sim9_0"

text \<open>The link is believed up. The modem echoes the escape token and answers the probe
  with \<open>OK\<close>; or echo is off and nothing arrives. Or the link is believed down, echo is
  off and nothing arrives.\<close>

definition escape_answered :: sim9_t where
  "escape_answered = link_up (echo_on (received [line ''+++'', line ''AT'', line ''OK''] sim9_0))"

definition escape_unanswered :: sim9_t where
  "escape_unanswered = link_up sim9_0"

definition link_down_unanswered :: sim9_t where
  "link_down_unanswered = sim9_0"

text \<open>Echo is enabled and the modem accepts \<open>AT+CGATT=1\<close>. It reports the attached
  state at the first poll, at the second poll, or never in six polls; or it refuses the
  command.\<close>

definition attached_at_once :: sim9_t where
  "attached_at_once =
     echo_on (received
       [line ''AT+CGATT=1'', line ''OK'', line ''AT+CGATT?'', line ''+CGATT: 1'', line ''OK'']
       sim9_0)"




subsection \<open>Runs of attempts\<close>

text \<open>\<open>escape_probe k w\<close>: the probe \<open>AT\<close> of pass \<open>k\<close> (counted from 0) of a run of passes
  that starts in \<open>w\<close> and in which the probe of every earlier pass has failed, so that
  each of them has left the link-connected flag set. The result is what the probe
  returns: its verdict, the caller's buffer and the state behind it.\<close>

fun escape_probe :: "nat \<Rightarrow> sim9_t \<Rightarrow> (bool \<times> string \<times> sim9_t) option" where
  "escape_probe 0 w = do {
     w1 \<leftarrow> escape_sequence w;
     sim9_send_at_P ''AT'' [] 0 SENDAT_TYPE_OK w1
   }"
| "escape_probe (Suc k) w = do {
     w1 \<leftarrow> escape_sequence w;
     (ok, msg, w2) \<leftarrow> sim9_send_at_P ''AT'' [] 0 SENDAT_TYPE_OK w1;
     escape_probe k (w2\<lparr>status := (status w2)\<lparr>st_connected := True\<rparr>\<rparr>)
   }"

text \<open>\<open>cgsn_attempt k w\<close>: the command \<open>AT+CGSN\<close> of attempt \<open>k\<close> (counted from 0) of a run
  of attempts that starts in \<open>w\<close>, each attempt writing into the identity buffer as the
  attempt before left it. The result is what the command returns: its verdict, the
  identity buffer and the state behind it.\<close>

fun cgsn_attempt :: "nat \<Rightarrow> sim9_t \<Rightarrow> (bool \<times> string \<times> sim9_t) option" where
  "cgsn_attempt 0 w = sim9_send_at_P ''AT+CGSN'' (imei w) IMEI_SIZE SENDAT_TYPE_MSGOK w"
| "cgsn_attempt (Suc k) w = do {
     (ok, msg, w1) \<leftarrow> sim9_send_at_P ''AT+CGSN'' (imei w) IMEI_SIZE SENDAT_TYPE_MSGOK w;
     cgsn_attempt k (w1\<lparr>imei := msg\<rparr>)
   }"


subsection \<open>A usable port\<close>

text \<open>The receive capacity, as the \<open>uint8_t\<close> the driver reads it into, is not 0, and the
  transmit buffer holds the longest string the driver copies into it (the 11 characters of
  \<open>AT+CPOWD=1\<close> and its carriage return) with its terminator.\<close>

definition port_ok :: "sim9_t \<Rightarrow> bool" where
  "port_ok w = (0 < rx_size (usart w) mod 256 \<and> 11 < length (tx (usart w)))"

subsection \<open>Naming the error bits\<close>

text \<open>\<open>sticky_outside R w w'\<close>: every error bit that is set in \<open>w\<close> and is not listed in
  \<open>R\<close> is still set in \<open>w'\<close>.\<close>

datatype err_flag =
  F_init | F_off | F_pin | F_imei | F_apn | F_tcpip | F_netreg | F_discon | F_gprs | F_esc
  | F_connected | F_gps

fun err :: "err_flag \<Rightarrow> errors_t \<Rightarrow> bool" where
  "err F_init e = er_init e"
| "err F_off e = er_off e"
| "err F_pin e = er_pin e"
| "err F_imei e = er_imei e"
| "err F_apn e = er_apn e"
| "err F_tcpip e = er_tcpip e"
| "err F_netreg e = er_netreg e"
| "err F_discon e = er_discon e"
| "err F_gprs e = er_gprs e"
| "err F_esc e = er_esc e"
| "err F_connected e = er_connected e"
| "err F_gps e = er_gps e"

definition err_flags :: "err_flag list" where
  "err_flags = [F_init, F_off, F_pin, F_imei, F_apn, F_tcpip, F_netreg, F_discon, F_gprs,
     F_esc, F_connected, F_gps]"

definition sticky_outside :: "err_flag list \<Rightarrow> sim9_t \<Rightarrow> sim9_t \<Rightarrow> bool" where
  "sticky_outside R w w' =
     list_all (\<lambda>f. f \<in> set R \<or> \<not> err f (errors w) \<or> err f (errors w')) err_flags"

section \<open>Properties\<close>

subsection \<open>What the receiving functions leave alone\<close>

lemma session_kept_refl [simp]: "session_kept w w"
  by (simp add: session_kept_def)

lemma session_kept_trans: "session_kept a b \<Longrightarrow> session_kept b c \<Longrightarrow> session_kept a c"
  by (simp add: session_kept_def)

lemma rx_only_refl [simp]: "rx_only w w"
  by (simp add: rx_only_def)

lemma rx_only_trans: "rx_only a b \<Longrightarrow> rx_only b c \<Longrightarrow> rx_only a c"
  by (auto simp: rx_only_def intro: session_kept_trans)

lemma rx_only_delay [simp]: "rx_only w (delay_ms n w)"
  by (simp add: rx_only_def session_kept_def delay_ms_def)

lemma rx_only_getmsg: "usart_getmsg s sz w = Some (n, s', w') \<Longrightarrow> rx_only w w'"
  by (auto simp: usart_getmsg_def Let_def rx_only_def session_kept_def split: list.splits if_splits)

lemma rx_only_poll: "sim9_msg_poll s sz w = Some (n, s', w') \<Longrightarrow> rx_only w w'"
  by (auto simp: sim9_msg_poll_def Let_def Option.bind_eq_Some_conv split: if_splits
      dest!: rx_only_getmsg intro: rx_only_trans[OF rx_only_delay])

lemma rx_only_msg_loop: "sim9_msg_loop loop s sz w = Some (n, s', w') \<Longrightarrow> rx_only w w'"
proof (induction loop arbitrary: s w)
  case 0
  then show ?case by (simp add: rx_only_poll)
next
  case (Suc loop)
  then show ?case
    by (auto simp: Option.bind_eq_Some_conv split: if_splits
        dest!: rx_only_poll intro: rx_only_trans)
qed

lemma rx_only_msg: "sim9_msg s sz t w = Some (n, s', w') \<Longrightarrow> rx_only w w'"
  by (auto simp: sim9_msg_def Option.bind_eq_Some_conv split: if_splits dest: rx_only_msg_loop)

lemma rx_only_searchfor_body:
  "sim9_searchfor_body s type b sz w = Some (ok, z, b', w') \<Longrightarrow> rx_only w w'"
  by (auto simp: sim9_searchfor_body_def Option.bind_eq_Some_conv split: if_splits prod.splits
      dest: rx_only_msg)

lemma rx_only_searchfor_loop:
  "sim9_searchfor_loop count s type b sz w = Some (ok, b', w') \<Longrightarrow> rx_only w w'"
proof (induction count arbitrary: b w)
  case 0
  then show ?case by (auto simp: Option.bind_eq_Some_conv dest: rx_only_searchfor_body)
next
  case (Suc count)
  then show ?case
    by (auto simp: Option.bind_eq_Some_conv split: if_splits
        dest!: rx_only_searchfor_body intro: rx_only_trans)
qed

lemma rx_only_searchfor:
  "sim9_searchfor s count ext extsize type w = Some (ok, b', w') \<Longrightarrow> rx_only w w'"
  by (auto simp: sim9_searchfor_def Let_def Option.bind_eq_Some_conv
      split: if_splits prod.splits option.splits dest: rx_only_searchfor_loop)

lemma rx_only_searchfor_P:
  "sim9_searchfor_P s count ext extsize type w = Some (ok, b', w') \<Longrightarrow> rx_only w w'"
  by (auto simp: sim9_searchfor_P_def Option.bind_eq_Some_conv dest: rx_only_searchfor)

subsection \<open>The Message Reader\<close>

lemma usart_getmsg_total:
  "sz \<le> length s \<Longrightarrow> \<exists>n s' w'. usart_getmsg s sz w = Some (n, s', w')"
  by (auto simp: usart_getmsg_def Let_def split: list.splits)

lemma usart_getmsg_Some:
  assumes "usart_getmsg s sz w = Some (n, s', w')"
  shows "n \<le> sz" "length s' = length s" "drop sz s' = drop sz s"
  using assms by (auto simp: usart_getmsg_def Let_def split: list.splits if_splits)

lemma sim9_msg_poll_total:
  "sz \<le> length s \<Longrightarrow> \<exists>n s' w'. sim9_msg_poll s sz w = Some (n, s', w')"
  using usart_getmsg_total[of sz s "delay_ms 10 w"]
  by (auto simp: sim9_msg_poll_def Let_def)

lemma sim9_msg_poll_Some:
  assumes "sim9_msg_poll s sz w = Some (n, s', w')"
  shows "n \<le> sz" "length s' = length s" "drop sz s' = drop sz s" "n = 0 \<or> 3 \<le> n"
  using assms
  by (auto simp: sim9_msg_poll_def Let_def Option.bind_eq_Some_conv split: if_splits
      dest: usart_getmsg_Some)

lemma none_qualifying_delay:
  "none_qualifying sz (Suc k) w = none_qualifying sz k (delay_ms 10 w)"
  by (cases "wire (usart w)") (simp_all add: none_qualifying_def delay_ms_def)

lemma usart_getmsg_quiet:
  assumes "usart_getmsg s sz w = Some (n, s', w')" "none_qualifying sz k w"
  shows "n < 3 \<and> none_qualifying sz k w'"
  using assms
  by (auto simp: usart_getmsg_def Let_def none_qualifying_def qualifying_def
      split: list.splits if_splits)

lemma sim9_msg_poll_quiet:
  assumes "sim9_msg_poll s sz w = Some (n, s', w')" "none_qualifying sz (Suc k) w"
  shows "n = 0 \<and> none_qualifying sz k w'"
  using assms(1) assms(2)[unfolded none_qualifying_delay]
  by (auto simp: sim9_msg_poll_def Let_def Option.bind_eq_Some_conv split: if_splits
      dest: usart_getmsg_quiet)

lemma sim9_msg_loop_total:
  "sz \<le> length s \<Longrightarrow> \<exists>n s' w'. sim9_msg_loop loop s sz w = Some (n, s', w')"
proof (induction loop arbitrary: s w)
  case 0
  then show ?case by (simp add: sim9_msg_poll_total)
next
  case (Suc loop)
  obtain n s1 w1 where p: "sim9_msg_poll s sz w = Some (n, s1, w1)"
    using sim9_msg_poll_total[OF Suc.prems] by blast
  have "sz \<le> length s1" using sim9_msg_poll_Some(2)[OF p] Suc.prems by simp
  from Suc.IH[OF this] show ?case using p by auto
qed

lemma sim9_msg_loop_Some:
  "sim9_msg_loop loop s sz w = Some (n, s', w') \<Longrightarrow>
     n \<le> sz \<and> length s' = length s \<and> drop sz s' = drop sz s \<and> (n = 0 \<or> 3 \<le> n)"
proof (induction loop arbitrary: s w)
  case 0
  then show ?case using sim9_msg_poll_Some[of s sz w n s' w'] by simp
next
  case (Suc loop)
  then obtain n1 s1 w1 where p: "sim9_msg_poll s sz w = Some (n1, s1, w1)"
    and r: "(if n1 = 0 then sim9_msg_loop loop s1 sz w1 else Some (n1, s1, w1)) = Some (n, s', w')"
    by (auto simp: Option.bind_eq_Some_conv)
  show ?case
  proof (cases "n1 = 0")
    case True
    with r Suc.IH[of s1 w1] sim9_msg_poll_Some[OF p] show ?thesis by simp
  next
    case False
    with r sim9_msg_poll_Some[OF p] show ?thesis by auto
  qed
qed

lemma sim9_msg_loop_quiet:
  "sim9_msg_loop loop s sz w = Some (n, s', w') \<Longrightarrow> none_qualifying sz (Suc loop) w \<Longrightarrow> n = 0"
proof (induction loop arbitrary: s w)
  case 0
  then show ?case using sim9_msg_poll_quiet[of s sz w n s' w' 0] by simp
next
  case (Suc loop)
  then obtain n1 s1 w1 where p: "sim9_msg_poll s sz w = Some (n1, s1, w1)"
    and r: "(if n1 = 0 then sim9_msg_loop loop s1 sz w1 else Some (n1, s1, w1)) = Some (n, s', w')"
    by (auto simp: Option.bind_eq_Some_conv)
  from sim9_msg_poll_quiet[OF p Suc.prems(2)] have "n1 = 0" "none_qualifying sz (Suc loop) w1"
    by simp_all
  with r Suc.IH[of s1 w1] show ?case by simp
qed

text \<open>
  What holds of every call of the Message Reader with a buffer \<open>s\<close> of at least \<open>sz\<close>
  bytes. It returns, and stays inside the buffer: the buffer keeps its length and every
  byte from offset \<open>sz\<close> on is untouched. It polls \<open>timeout * 100 + 1\<close> times, 10 ms
  apart; if no qualifying line is waiting or arrives during those polls, it returns 0.
  The length returned is 0 or at least 3, never 1 or 2. A length \<open>len\<close> of at least 3
  comes with a zero byte at offset \<open>len - 2\<close> of the buffer.
\<close>

lemma sim9_msg_contract:
  assumes "sz \<le> length s"
  shows "\<exists>len s' w'. sim9_msg s sz timeout w = Some (len, s', w') \<and>
           length s' = length s \<and> drop sz s' = drop sz s \<and>
           (none_qualifying sz (timeout * 100 + 1) w \<longrightarrow> len = 0) \<and>
           (len = 0 \<or> 3 \<le> len) \<and>
           (3 \<le> len \<longrightarrow> len - 2 < length s' \<and> s' ! (len - 2) = NUL)"
proof -
  obtain n s1 w1 where l: "sim9_msg_loop (timeout * 100) s sz w = Some (n, s1, w1)"
    using sim9_msg_loop_total[OF assms] by blast
  note f = sim9_msg_loop_Some[OF l]
  have q: "none_qualifying sz (timeout * 100 + 1) w \<Longrightarrow> n = 0"
    using sim9_msg_loop_quiet[OF l] by simp
  show ?thesis
  proof (cases "n = 0")
    case True
    with l f show ?thesis by (simp add: sim9_msg_def)
  next
    case False
    with f assms have b: "3 \<le> n" "n - 2 < length s1" "n - 2 < sz" by auto
    with l f q False show ?thesis by (auto simp: sim9_msg_def)
  qed
qed

text \<open>At two inputs, with timeout 1 and an 8-byte buffer: nothing but a blank line
  arrives and the call returns 0; a blank line and \<open>OK\<close> are waiting and the call
  returns the length 4 with a zero byte at offset 2.\<close>

lemma sim9_msg_scenarios:
  "8 \<le> length ''########'' \<and>
   none_qualifying 8 (1 * 100 + 1) blank_line_only \<and>
   (\<exists>s' w'. sim9_msg ''########'' 8 1 blank_line_only = Some (0, s', w') \<and> length s' = 8) \<and>
   (\<exists>s' w'. sim9_msg ''########'' 8 1 ok_waiting = Some (4, s', w') \<and> s' ! 2 = NUL)"
proof -
  have h: "8 \<le> length ''########''" by simp
  have q: "none_qualifying 8 (1 * 100 + 1) blank_line_only"
    by code_simp
  have e: "case sim9_msg ''########'' 8 1 ok_waiting of
             None \<Rightarrow> False | Some (len, s', w') \<Rightarrow> len = 4"
    by code_simp
  have a: "\<exists>s' w'. sim9_msg ''########'' 8 1 blank_line_only = Some (0, s', w') \<and> length s' = 8"
    using sim9_msg_contract[OF h, of 1 blank_line_only] q by auto
  have b: "\<exists>s' w'. sim9_msg ''########'' 8 1 ok_waiting = Some (4, s', w') \<and> s' ! 2 = NUL"
    using sim9_msg_contract[OF h, of 1 ok_waiting] e by auto
  from h q a b show ?thesis by blast
qed

text \<open>
  Claim C3, at the input where the code departs from it. The claim: if no qualifying
  line arrives within \<open>timeout\<close> seconds, the Message Reader returns 0. With timeout 1
  no line qualifies during the first 100 waits of 10 ms, that is within 1 second; the
  line \<open>OK\<close> is completed during the 101st wait, and the call returns its length 4 with
  the string \<open>OK\<close> in the buffer. \<open>do ... while (!len && loop--)\<close> with
  \<open>loop = timeout * 100\<close> runs its body \<open>timeout * 100 + 1\<close> times, one wait of 10 ms
  more than the timeout that the comments of the function give it.
\<close>

theorem sim9_msg_reads_after_timeout:
  "none_qualifying 8 (1 * 100) late_line \<and>
   (case sim9_msg ''########'' 8 1 late_line of
      None \<Rightarrow> False
    | Some (len, s', w') \<Rightarrow> len = 4 \<and> c_str s' = ''OK'')"
  by code_simp

text \<open>
  Claim C8. With a capacity below 2 (and a buffer at least that long) the Message Reader
  returns 0 for every timeout and every state of the port, the buffer keeps its length
  and no byte at or behind offset \<open>sz\<close> is written: the terminator is never stored.
\<close>

theorem sim9_msg_small_capacity:
  assumes "sz < 2" "sz \<le> length s"
  shows "\<exists>s' w'. sim9_msg s sz timeout w = Some (0, s', w') \<and>
           length s' = length s \<and> drop sz s' = drop sz s"
proof -
  obtain n s1 w1 where l: "sim9_msg_loop (timeout * 100) s sz w = Some (n, s1, w1)"
    using sim9_msg_loop_total[OF assms(2)] by blast
  from sim9_msg_loop_Some[OF l] assms(1)
  have "n = 0" "length s1 = length s" "drop sz s1 = drop sz s"
    by auto
  with l show ?thesis by (simp add: sim9_msg_def)
qed

theorem sim9_msg_small_capacity_witness:
  "(1::nat) < 2 \<and> 1 \<le> length ''#'' \<and>
   (\<exists>s' w'. sim9_msg ''#'' 1 5 (received [line ''OK''] sim9_0) = Some (0, s', w') \<and>
      length s' = length ''#'' \<and> drop 1 s' = drop 1 ''#'')"
proof -
  have h1: "(1::nat) < 2" by simp
  have h2: "1 \<le> length ''#''" by simp
  from sim9_msg_small_capacity[OF h1 h2, of 5 "received [line ''OK''] sim9_0"] h1 h2
  show ?thesis by blast
qed

subsection \<open>What the sending functions leave alone and what they send\<close>

lemma c_str_terminated: "NUL \<notin> set s \<Longrightarrow> c_str (s @ NUL # r) = s"
  by (auto simp: c_str_def takeWhile_tail)

lemma c_str_unterminated: "NUL \<notin> set s \<Longrightarrow> c_str s = s"
  by (auto simp: c_str_def)

lemma take_padded:
  assumes "length s < n"
  shows "take n (s @ replicate n x) = s @ x # replicate (n - length s - 1) x"
proof -
  from assms obtain k where k: "n - length s = Suc k" by (cases "n - length s") auto
  then have "Suc k \<le> n" by arith
  with k show ?thesis using assms by (simp add: min_def)
qed

lemma send_kept [simp]: "session_kept w (sim9_send s w)"
  by (simp add: sim9_send_def usart_printstr_def session_kept_def)

lemma send_txlog [simp]: "txlog (usart (sim9_send s w)) = txlog (usart w) @ [s]"
  by (simp add: sim9_send_def usart_printstr_def)

lemma send_P_Some:
  assumes "sim9_send_P s w = Some w'"
  shows "session_kept w w'" "NUL \<notin> set s \<Longrightarrow> txlog (usart w') = txlog (usart w) @ [s]"
proof -
  let ?n = "length (tx (usart w))"
  let ?t = "take ?n (s @ replicate ?n NUL)"
  from assms have nul: "NUL \<in> set ?t"
    and w': "w' = usart_printstr (c_str ?t) (w\<lparr>usart := (usart w)\<lparr>tx := ?t\<rparr>\<rparr>)"
    by (auto simp: sim9_send_P_def strncpy_def usart_printstr_tx_def split: if_splits)
  show "session_kept w w'"
    by (simp add: w' usart_printstr_def session_kept_def)
  assume s: "NUL \<notin> set s"
  have "length s < ?n"
  proof (rule ccontr)
    assume "\<not> length s < ?n"
    then have "?t = take ?n s" by simp
    with nul s show False by (auto dest: in_set_takeD)
  qed
  then have "?t = s @ NUL # replicate (?n - length s - 1) NUL"
    by (rule take_padded)
  then have "c_str ?t = s" using s by (simp add: c_str_terminated)
  then show "txlog (usart w') = txlog (usart w) @ [s]"
    by (simp add: w' usart_printstr_def)
qed

lemma update_last: "length ys = k \<Longrightarrow> (ys @ [x])[k := y] = ys @ [y]"
  by auto

lemma ram_copy_P_Some:
  assumes "ram_copy_P s w = Some b" "NUL \<notin> set s"
  shows "b = take ((min (length s) (rx_size (usart w)) + 1) mod 256 - 1) s"
proof -
  let ?sz = "(min (length s) (rx_size (usart w)) + 1) mod 256"
  from assms(1) have sz: "?sz \<noteq> 0"
    and b: "b = c_str ((take ?sz (s @ replicate ?sz NUL))[?sz - 1 := NUL])"
    by (auto simp: ram_copy_P_def Let_def strncpy_def malloc_def split: if_splits)
  obtain k where k: "?sz = Suc k" using sz by (cases ?sz) auto
  have "?sz \<le> min (length s) (rx_size (usart w)) + 1" by (rule mod_less_eq_dividend)
  with k have kl: "k \<le> length s" by simp
  let ?p = "s @ replicate (Suc k) NUL"
  have "take (Suc k) ?p = take k ?p @ [?p ! k]"
    by (rule take_Suc_conv_app_nth) simp
  moreover have "take k ?p = take k s" using kl by simp
  ultimately have "take (Suc k) ?p = take k s @ [?p ! k]" by (simp only:)
  moreover have "(take k s @ [?p ! k])[k := NUL] = take k s @ [NUL]"
  proof -
    have "length (take k s) = k" using kl by simp
    then show ?thesis by (rule update_last)
  qed
  ultimately have "(take (Suc k) ?p)[k := NUL] = take k s @ [NUL]" by (simp only:)
  moreover have "NUL \<notin> set (take k s)" using assms(2) by (auto dest: in_set_takeD)
  ultimately show ?thesis
    unfolding b k by (simp add: c_str_terminated)
qed

lemma ram_copy_P_short:
  assumes "ram_copy_P s w = Some b" "NUL \<notin> set s"
  shows "length b \<le> length s"
  using ram_copy_P_Some[OF assms] by simp

lemma ram_copy_P_whole:
  assumes "ram_copy_P s w = Some b" "NUL \<notin> set s" "length s \<le> rx_size (usart w)" "length s < 255"
  shows "b = s"
  using ram_copy_P_Some[OF assms(1,2)] assms(3,4) by (simp add: min_def)

lemma send_at_echo_Some:
  assumes "send_at_echo cmd w = Some (e, w1)"
  shows "session_kept w w1"
    and "txlog (usart w1) = txlog (usart w) @ cmd # [CR] # (if st_echo (status w) then [[LF]] else [])"
proof -
  from assms obtain wa where wa: "sim9_send_P [CR] (sim9_send cmd w) = Some wa"
    and r: "(if st_echo (status wa) then do {
               w2 \<leftarrow> sim9_send_P [LF] wa;
               (ok, b, w3) \<leftarrow> sim9_searchfor cmd ((eol (delay_ms 100 w2) + 1) mod 256) None 0 EEQUAL
                       (delay_ms 100 w2);
               Some (ok, w3) } else Some (True, wa)) = Some (e, w1)"
    by (auto simp: send_at_echo_def Option.bind_eq_Some_conv)
  have ka: "session_kept w wa"
    using send_P_Some(1)[OF wa] send_kept[of w cmd] by (rule session_kept_trans[rotated])
  have la: "txlog (usart wa) = txlog (usart w) @ [cmd, [CR]]"
    using send_P_Some(2)[OF wa] by simp
  have st: "status wa = status w" using ka by (simp add: session_kept_def)
  show "session_kept w w1"
  proof (cases "st_echo (status wa)")
    case False
    with r ka show ?thesis by simp
  next
    case True
    with r obtain wb b w3 where wb: "sim9_send_P [LF] wa = Some wb"
      and sf: "sim9_searchfor cmd ((eol (delay_ms 100 wb) + 1) mod 256) None 0 EEQUAL
                       (delay_ms 100 wb) = Some (e, b, w3)" and "w1 = w3"
      by (auto simp: Option.bind_eq_Some_conv)
    from rx_only_searchfor[OF sf] have "session_kept (delay_ms 100 wb) w1"
      using \<open>w1 = w3\<close> by (simp add: rx_only_def)
    moreover have "session_kept wb (delay_ms 100 wb)" using rx_only_delay by (simp add: rx_only_def)
    ultimately show ?thesis
      using ka send_P_Some(1)[OF wb] by (blast intro: session_kept_trans)
  qed
  show "txlog (usart w1) = txlog (usart w) @ cmd # [CR] # (if st_echo (status w) then [[LF]] else [])"
  proof (cases "st_echo (status wa)")
    case False
    with r la st show ?thesis by simp
  next
    case True
    with r obtain wb b w3 where wb: "sim9_send_P [LF] wa = Some wb"
      and sf: "sim9_searchfor cmd ((eol (delay_ms 100 wb) + 1) mod 256) None 0 EEQUAL
                       (delay_ms 100 wb) = Some (e, b, w3)" and "w1 = w3"
      by (auto simp: Option.bind_eq_Some_conv)
    from rx_only_searchfor[OF sf] have "txlog (usart w1) = txlog (usart (delay_ms 100 wb))"
      using \<open>w1 = w3\<close> by (simp add: rx_only_def)
    also have "\<dots> = txlog (usart wb)" using rx_only_delay[of wb 100] by (simp add: rx_only_def)
    also have "\<dots> = txlog (usart wa) @ [[LF]]" using send_P_Some(2)[OF wb] by simp
    finally show ?thesis using la st True by simp
  qed
qed

lemma and_sim9_msg_Some:
  "and_sim9_msg ok msg sz w = Some (ok', msg', w') \<Longrightarrow> rx_only w w'"
  by (auto simp: and_sim9_msg_def Option.bind_eq_Some_conv split: if_splits dest: rx_only_msg)

lemma and_search_OK_Some:
  "and_search_OK ok w = Some (ok', w') \<Longrightarrow> rx_only w w'"
  by (auto simp: and_search_OK_def Option.bind_eq_Some_conv split: if_splits
      dest: rx_only_searchfor_P)

lemma send_at_tail_rx_only:
  assumes "sim9_send_at cmd msg sz type w = Some (ok, msg', w')"
    and "send_at_echo cmd w = Some (e, w1)"
  shows "rx_only w1 w'"
proof -
  note d = rx_only_delay[of w1 100]
  from assms show ?thesis
    by (auto simp: sim9_send_at_def Option.bind_eq_Some_conv split: if_splits
        dest!: and_sim9_msg_Some and_search_OK_Some intro: rx_only_trans[OF d] rx_only_trans d)
qed

lemma sim9_send_at_Some:
  assumes "sim9_send_at cmd msg sz type w = Some (ok, msg', w')"
  shows "session_kept w w'"
    and "txlog (usart w') =
           txlog (usart w) @ cmd # [CR] # (if st_echo (status w) then [[LF]] else [])"
proof -
  from assms obtain e w1 where e: "send_at_echo cmd w = Some (e, w1)"
    by (auto simp: sim9_send_at_def Option.bind_eq_Some_conv)
  from send_at_tail_rx_only[OF assms e] have t: "rx_only w1 w'" .
  with send_at_echo_Some(1)[OF e] show "session_kept w w'"
    by (auto simp: rx_only_def intro: session_kept_trans)
  from t send_at_echo_Some(2)[OF e]
  show "txlog (usart w') =
           txlog (usart w) @ cmd # [CR] # (if st_echo (status w) then [[LF]] else [])"
    by (simp add: rx_only_def)
qed

lemma sim9_send_at_P_Some:
  assumes "sim9_send_at_P cmd msg sz type w = Some (ok, msg', w')"
  shows "session_kept w w'"
    and "\<exists>b. ram_copy_P cmd w = Some b \<and> txlog (usart w') =
           txlog (usart w) @ b # [CR] # (if st_echo (status w) then [[LF]] else [])"
  using assms sim9_send_at_Some
  by (auto simp: sim9_send_at_P_def Option.bind_eq_Some_conv)

lemma sent_append: "count_list (xs @ ys) c = count_list xs c + count_list ys c"
  by (induction xs) auto

lemma sent_send_at_P:
  assumes "sim9_send_at_P cmd msg sz type w = Some (ok, msg', w')" "NUL \<notin> set cmd"
    and "c \<noteq> [CR]" "c \<noteq> [LF]"
  shows "sent c w \<le> sent c w'" "sent c w' \<le> sent c w + 1"
    and "length cmd < length c \<Longrightarrow> sent c w' = sent c w"
    and "c = cmd \<Longrightarrow> length cmd \<le> rx_size (usart w) \<Longrightarrow> length cmd < 255 \<Longrightarrow>
           sent c w' = sent c w + 1"
proof -
  from sim9_send_at_P_Some(2)[OF assms(1)] obtain b where b: "ram_copy_P cmd w = Some b"
    and l: "txlog (usart w') =
           txlog (usart w) @ b # [CR] # (if st_echo (status w) then [[LF]] else [])"
    by blast
  from l assms(3,4) have s: "sent c w' = sent c w + (if b = c then 1 else 0)"
    by (auto simp: sent_def sent_append)
  from s show "sent c w \<le> sent c w'" "sent c w' \<le> sent c w + 1" by simp_all
  show "sent c w' = sent c w" if "length cmd < length c"
    using s that ram_copy_P_short[OF b assms(2)] by auto
  show "sent c w' = sent c w + 1"
    if "c = cmd" "length cmd \<le> rx_size (usart w)" "length cmd < 255"
    using ram_copy_P_whole[OF b assms(2) that(2,3)] s that(1) by simp
qed

subsection \<open>The calls return\<close>

text \<open>On a usable port, and with buffers as long as the sizes passed with them, no call
  leaves its buffers: the result is never \<open>None\<close>.\<close>

lemma port_ok_rx_only: "rx_only w w' \<Longrightarrow> port_ok w' = port_ok w"
  by (simp add: rx_only_def session_kept_def port_ok_def)

lemma send_P_total:
  assumes "length s < length (tx (usart w))"
  shows "\<exists>w'. sim9_send_P s w = Some w' \<and> length (tx (usart w')) = length (tx (usart w))"
proof -
  let ?n = "length (tx (usart w))"
  have "take ?n (s @ replicate ?n NUL) = s @ NUL # replicate (?n - length s - 1) NUL"
    using assms by (rule take_padded)
  then have "NUL \<in> set (take ?n (s @ replicate ?n NUL))" by simp
  then show ?thesis
    by (simp add: sim9_send_P_def strncpy_def usart_printstr_tx_def usart_printstr_def)
qed

lemma port_ok_send_P:
  assumes "port_ok w" "length s \<le> 11"
  shows "\<exists>w'. sim9_send_P s w = Some w' \<and> port_ok w'"
proof -
  from assms have "length s < length (tx (usart w))" by (simp add: port_ok_def)
  from send_P_total[OF this] obtain w' where
    w': "sim9_send_P s w = Some w'" "length (tx (usart w')) = length (tx (usart w))" by blast
  from send_P_Some(1)[OF w'(1)] w'(2) assms(1) have "port_ok w'"
    by (simp add: port_ok_def session_kept_def)
  with w'(1) show ?thesis by blast
qed

lemma port_ok_send [simp]: "port_ok (sim9_send s w) = port_ok w"
  by (simp add: port_ok_def sim9_send_def usart_printstr_def)

lemma port_ok_delay [simp]: "port_ok (delay_ms n w) = port_ok w"
  by (simp add: port_ok_def delay_ms_def)

lemma sim9_msg_total:
  assumes "sz \<le> length s"
  shows "\<exists>len s' w'. sim9_msg s sz t w = Some (len, s', w') \<and> length s' = length s"
  using sim9_msg_loop_total[OF assms, of "t * 100" w] sim9_msg_loop_Some[of "t * 100" s sz w] assms
  by (auto simp: sim9_msg_def)

lemma searchfor_body_total:
  assumes "sz \<le> length b"
  shows "\<exists>ok z b' w'. sim9_searchfor_body s type b sz w = Some (ok, z, b', w') \<and>
           length b' = length b"
  using sim9_msg_total[OF assms, of 1 w]
  by (auto simp: sim9_searchfor_body_def split: prod.splits)

lemma searchfor_loop_total:
  "sz \<le> length b \<Longrightarrow> \<exists>ok b' w'. sim9_searchfor_loop count s type b sz w = Some (ok, b', w')"
proof (induction count arbitrary: b w)
  case 0
  from searchfor_body_total[OF 0, of s type w] show ?case by auto
next
  case (Suc count)
  from searchfor_body_total[OF Suc.prems, of s type w] obtain ok z b' w' where
    b: "sim9_searchfor_body s type b sz w = Some (ok, z, b', w')" "length b' = length b"
    by blast
  with Suc.prems have "sz \<le> length b'" by simp
  from Suc.IH[OF this, of w'] b(1) show ?case by auto
qed

lemma searchfor_total:
  assumes "port_ok w"
  shows "\<exists>ok w'. sim9_searchfor s count None 0 type w = Some (ok, None, w') \<and> port_ok w'"
proof -
  let ?sz = "rx_size (usart w) mod 256"
  from assms have nz: "malloc w ?sz \<noteq> []" by (simp add: malloc_def port_ok_def)
  have "?sz \<le> length ((malloc w ?sz)[0 := NUL])" by (simp add: malloc_def)
  from searchfor_loop_total[OF this, of count s type w] obtain ok b' w' where
    l: "sim9_searchfor_loop count s type ((malloc w ?sz)[0 := NUL]) ?sz w = Some (ok, b', w')"
    by blast
  with nz have r: "sim9_searchfor s count None 0 type w = Some (ok, None, w')"
    by (simp add: sim9_searchfor_def)
  from rx_only_searchfor[OF r] assms have "port_ok w'" by (simp add: port_ok_rx_only)
  with r show ?thesis by blast
qed

lemma ram_copy_P_total:
  "length s < 255 \<Longrightarrow> \<exists>b. ram_copy_P s w = Some b"
proof -
  assume "length s < 255"
  then have "min (length s) (rx_size (usart w)) + 1 < 256" by simp
  then have "(min (length s) (rx_size (usart w)) + 1) mod 256 \<noteq> 0" by simp
  then show ?thesis by (simp add: ram_copy_P_def Let_def strncpy_def malloc_def)
qed

lemma searchfor_P_total:
  assumes "port_ok w" "length s < 255"
  shows "\<exists>ok w'. sim9_searchfor_P s count None 0 type w = Some (ok, None, w') \<and> port_ok w'"
proof -
  from ram_copy_P_total[OF assms(2), of w] obtain b where "ram_copy_P s w = Some b" by blast
  with searchfor_total[OF assms(1), of b count type] show ?thesis
    by (auto simp: sim9_searchfor_P_def)
qed

lemma send_at_echo_total:
  assumes "port_ok w"
  shows "\<exists>e w1. send_at_echo cmd w = Some (e, w1) \<and> port_ok w1"
proof -
  from port_ok_send_P[of "sim9_send cmd w" "[CR]"] assms obtain wa where
    wa: "sim9_send_P [CR] (sim9_send cmd w) = Some wa" "port_ok wa" by auto
  show ?thesis
  proof (cases "st_echo (status wa)")
    case False
    with wa show ?thesis by (auto simp: send_at_echo_def)
  next
    case True
    from port_ok_send_P[OF wa(2), of "[LF]"] obtain wb where
      wb: "sim9_send_P [LF] wa = Some wb" "port_ok wb" by auto
    from searchfor_total[of "delay_ms 100 wb" cmd "(eol (delay_ms 100 wb) + 1) mod 256" EEQUAL] wb(2)
    obtain ok w3 where "sim9_searchfor cmd ((eol (delay_ms 100 wb) + 1) mod 256) None 0 EEQUAL
                       (delay_ms 100 wb) = Some (ok, None, w3)" "port_ok w3" by auto
    with wa wb True show ?thesis by (simp add: send_at_echo_def)
  qed
qed

lemma and_sim9_msg_total:
  assumes "sz \<le> length msg"
  shows "\<exists>ok msg' w'. and_sim9_msg e msg sz w = Some (ok, msg', w') \<and>
           length msg' = length msg \<and> port_ok w' = port_ok w"
proof (cases e)
  case False
  then show ?thesis by (auto simp: and_sim9_msg_def)
next
  case True
  from sim9_msg_total[OF assms, of "(eol w + 1) mod 256" w] obtain len s' w' where
    m: "sim9_msg msg sz ((eol w + 1) mod 256) w = Some (len, s', w')" "length s' = length msg"
    by blast
  from rx_only_msg[OF m(1)] have "port_ok w' = port_ok w" by (rule port_ok_rx_only)
  with m True show ?thesis by (simp add: and_sim9_msg_def)
qed

lemma and_search_OK_total:
  assumes "port_ok w"
  shows "\<exists>ok w'. and_search_OK e w = Some (ok, w') \<and> port_ok w'"
proof (cases e)
  case False
  with assms show ?thesis by (auto simp: and_search_OK_def)
next
  case True
  from searchfor_P_total[OF assms, of "''OK''" "(eol w + 1) mod 256" EEQUAL]
  obtain ok w' where
    "sim9_searchfor_P ''OK'' ((eol w + 1) mod 256) None 0 EEQUAL w = Some (ok, None, w')"
    "port_ok w'" by auto
  with True show ?thesis by (simp add: and_search_OK_def)
qed

lemma sim9_send_at_total:
  assumes "port_ok w" "sz \<le> length msg"
  shows "\<exists>ok msg' w'. sim9_send_at cmd msg sz type w = Some (ok, msg', w') \<and>
           length msg' = length msg \<and> port_ok w'"
proof -
  from send_at_echo_total[OF assms(1), of cmd] obtain e w1 where
    e: "send_at_echo cmd w = Some (e, w1)" "port_ok w1" by blast
  let ?d = "delay_ms 100 w1"
  have pd: "port_ok ?d" using e(2) by simp
  from and_sim9_msg_total[OF assms(2), of e ?d] pd obtain ok1 msg' w2 where
    m: "and_sim9_msg e msg sz ?d = Some (ok1, msg', w2)" "length msg' = length msg" "port_ok w2"
    by auto
  from and_search_OK_total[OF m(3), of ok1] obtain ok2 w3 where
    s: "and_search_OK ok1 w2 = Some (ok2, w3)" "port_ok w3" by blast
  from and_search_OK_total[OF pd, of e] obtain ok2' w3' where
    s': "and_search_OK e ?d = Some (ok2', w3')" "port_ok w3'" by blast
  from e m s s' pd show ?thesis by (simp add: sim9_send_at_def)
qed

lemma sim9_send_at_P_total:
  assumes "port_ok w" "sz \<le> length msg" "length cmd < 255"
  shows "\<exists>ok msg' w'. sim9_send_at_P cmd msg sz type w = Some (ok, msg', w') \<and>
           length msg' = length msg \<and> port_ok w'"
proof -
  from ram_copy_P_total[OF assms(3), of w] obtain b where "ram_copy_P cmd w = Some b" by blast
  with sim9_send_at_total[OF assms(1,2), of b type] show ?thesis
    by (simp add: sim9_send_at_P_def)
qed

lemma port_ok_upd [simp]:
  "port_ok (w\<lparr>status := st\<rparr>) = port_ok w"
  "port_ok (w\<lparr>errors := e\<rparr>) = port_ok w"
  "port_ok (w\<lparr>imei := m\<rparr>) = port_ok w"
  "port_ok (sim9_clear_rx_buff w) = port_ok w"
  by (simp_all add: port_ok_def sim9_clear_rx_buff_def usart_clear_rx_buffer_def)

lemma sim9_escape_body_total:
  assumes "port_ok w"
  shows "\<exists>brk w'. sim9_escape_body w = Some (brk, w') \<and> port_ok w'"
proof -
  have "\<exists>w1. escape_sequence w = Some w1 \<and> port_ok w1"
  proof (cases "st_connected (status w)")
    case False
    with assms show ?thesis by (simp add: escape_sequence_def)
  next
    case True
    from port_ok_send_P[of "delay_ms 1000 w" "''+++''"] assms obtain wa where
      wa: "sim9_send_P ''+++'' (delay_ms 1000 w) = Some wa" "port_ok wa" by auto
    show ?thesis
    proof (cases "st_echo (status wa)")
      case False
      with True wa show ?thesis by (simp add: escape_sequence_def)
    next
      case e: True
      from port_ok_send_P[of "delay_ms 500 wa" "[CR, LF]"] wa(2) obtain wb where
        wb: "sim9_send_P [CR, LF] (delay_ms 500 wa) = Some wb" "port_ok wb" by auto
      from searchfor_P_total[OF wb(2), of "''+++''" 30 EQUAL] obtain found wc where
        "sim9_searchfor_P ''+++'' 30 None 0 EQUAL wb = Some (found, None, wc)" "port_ok wc"
        by auto
      with True wa e wb show ?thesis by (simp add: escape_sequence_def)
    qed
  qed
  then obtain w1 where p: "escape_sequence w = Some w1" and k: "port_ok w1" by blast
  from sim9_send_at_P_total[OF k, of 0 "[]" "''AT''" SENDAT_TYPE_OK] obtain ok msg' w2 where
    a: "sim9_send_at_P ''AT'' [] 0 SENDAT_TYPE_OK w1 = Some (ok, msg', w2)" "port_ok w2"
    by auto
  show ?thesis
    unfolding sim9_escape_body_def using p a by (cases ok) (auto simp del: SENDAT_TYPE_OK_def)
qed

lemma sim9_escape_loop_total:
  "port_ok w \<Longrightarrow> \<exists>w'. sim9_escape_loop n w = Some w'"
proof (induction n arbitrary: w)
  case 0
  then show ?case by simp
next
  case (Suc n)
  from sim9_escape_body_total[OF Suc.prems] obtain brk w1 where
    b: "sim9_escape_body w = Some (brk, w1)" "port_ok w1" by blast
  from Suc.IH[OF b(2)] b(1) show ?case by (cases brk) auto
qed

lemma sim9_escape_total: "port_ok w \<Longrightarrow> \<exists>w'. sim9_escape w = Some w'"
  using sim9_escape_loop_total[of w 3] by (auto simp: sim9_escape_def)

lemma imei_loop_total:
  "port_ok w \<Longrightarrow> 18 \<le> length (imei w) \<Longrightarrow> \<exists>w'. imei_loop n w = Some w'"
proof (induction n arbitrary: w)
  case 0
  then show ?case by simp
next
  case (Suc n)
  show ?case
  proof (cases "er_imei (errors w)")
    case False
    then show ?thesis by simp
  next
    case True
    from sim9_send_at_P_total[OF Suc.prems(1), of 18 "imei w" "''AT+CGSN''" SENDAT_TYPE_MSGOK]
      Suc.prems(2)
    obtain ok msg w1 where
      a: "sim9_send_at_P ''AT+CGSN'' (imei w) 18 SENDAT_TYPE_MSGOK w = Some (ok, msg, w1)"
        "length msg = length (imei w)" "port_ok w1"
      by auto
    have 1: "\<exists>w'. imei_loop n (w1\<lparr>imei := msg, errors := (errors w1)\<lparr>er_imei := False\<rparr>\<rparr>) = Some w'"
      using a Suc.prems(2) by (intro Suc.IH) simp_all
    have 2: "\<exists>w'. imei_loop n (w1\<lparr>imei := msg\<rparr>) = Some w'"
      using a Suc.prems(2) by (intro Suc.IH) simp_all
    from a(1) 1 2 True show ?thesis by (simp del: SENDAT_TYPE_MSGOK_def)
  qed
qed

lemma imei_get_total:
  assumes "port_ok w" "18 \<le> length (imei w)"
  shows "\<exists>w'. imei_get w = Some w'"
proof -
  from assms(2) have "imei w \<noteq> []" by auto
  moreover have "\<exists>w'. imei_loop 10 (sim9_clear_rx_buff
                (w\<lparr>imei := (imei w)[0 := NUL], errors := (errors w)\<lparr>er_imei := True\<rparr>\<rparr>)) = Some w'"
    using assms by (intro imei_loop_total) (simp_all add: sim9_clear_rx_buff_def usart_clear_rx_buffer_def port_ok_def)
  ultimately show ?thesis by (simp add: imei_get_def)
qed




subsection \<open>The Pattern Matcher\<close>

text \<open>With \<open>EEQUAL\<close> and \<open>ERELAX\<close> a message \<open>ERROR\<close> that is no match ends the search
  at once, whatever is left of \<open>count\<close>.\<close>

lemma searchfor_loop_ERROR_stops:
  assumes "type = EEQUAL \<or> type = ERELAX"
    and "sim9_msg buffer sz 1 w = Some (len, b', w')" "len \<noteq> 0"
    and "c_str b' = ''ERROR''" "\<not> fst (search_switch type s b')"
  shows "sim9_searchfor_loop count s type buffer sz w = Some (False, b', w')"
proof -
  from assms have "sim9_searchfor_body s type buffer sz w = Some (False, True, b', w')"
    by (auto simp: sim9_searchfor_body_def search_switch_def split: prod.splits)
  then show ?thesis by (cases count) simp_all
qed

text \<open>
  Claim C1, at the input where the code departs from it. The claim: at most \<open>count\<close>
  messages are retrieved, \<open>count = 0\<close> counting as 1. With \<open>RING\<close> and \<open>OK\<close> waiting and
  the pattern \<open>OK\<close>, \<open>count = 1\<close> retrieves both lines and reports success on the
  second, while \<open>count = 0\<close> retrieves one line and reports failure:
  \<open>do ... while (!ok && count--)\<close> runs its body \<open>count + 1\<close> times.
\<close>

theorem sim9_searchfor_count_plus_one:
  "(case sim9_searchfor ''OK'' 1 None 0 EQUAL ring_then_ok of
      None \<Rightarrow> False
    | Some (ok, b, w') \<Rightarrow> ok \<and> rxq (usart w') = []) \<and>
   (case sim9_searchfor ''OK'' 0 None 0 EQUAL ring_then_ok of
      None \<Rightarrow> False
    | Some (ok, b, w') \<Rightarrow> \<not> ok \<and> rxq (usart w') = [line ''OK''])"
  by code_simp

text \<open>
  Claim C2, at the input where the code departs from it. The claim: in every E-prefixed
  mode a message \<open>ERROR\<close> that is not the pattern ends the search with failure and no
  further retrieval. With \<open>ERROR\<close> and \<open>+CGATT: 1\<close> waiting, the pattern \<open>+CGATT: 1\<close> and
  \<open>count = 3\<close>, the mode \<open>ESTRICT\<close> reads on past \<open>ERROR\<close> and reports success on the
  second line; \<open>EEQUAL\<close> stops at \<open>ERROR\<close> and leaves the second line waiting. The
  \<open>switch\<close> has no \<open>case ESTRICT\<close>: the code 5 lands in \<open>default\<close>, which does not set
  \<open>check_error\<close>.
\<close>

theorem sim9_searchfor_ESTRICT_ignores_ERROR:
  "(case sim9_searchfor ''+CGATT: 1'' 3 None 0 ESTRICT error_then_cgatt of
      None \<Rightarrow> False
    | Some (ok, b, w') \<Rightarrow> ok \<and> rxq (usart w') = []) \<and>
   (case sim9_searchfor ''+CGATT: 1'' 3 None 0 EEQUAL error_then_cgatt of
      None \<Rightarrow> False
    | Some (ok, b, w') \<Rightarrow> \<not> ok \<and> rxq (usart w') = [line ''+CGATT: 1''])"
  by code_simp

subsection \<open>The Command Session\<close>

lemma sim9_send_at_MSGOK_returned:
  assumes "sim9_send_at cmd msg sz SENDAT_TYPE_MSGOK w = Some (ok, msg', w')"
  shows "\<exists>e w1. send_at_echo cmd w = Some (e, w1) \<and>
     (if \<not> e then \<not> ok \<and> msg' = msg \<and> w' = delay_ms 100 w1
      else \<exists>len w2.
             sim9_msg msg sz ((eol (delay_ms 100 w1) + 1) mod 256) (delay_ms 100 w1)
               = Some (len, msg', w2) \<and>
             (if len = 0 then \<not> ok \<and> w' = w2
              else \<exists>b. sim9_searchfor_P ''OK'' ((eol w2 + 1) mod 256) None 0 EEQUAL w2
                         = Some (ok, b, w')))"
proof -
  from assms obtain e w1 ok1 w2 where e: "send_at_echo cmd w = Some (e, w1)"
    and m: "and_sim9_msg e msg sz (delay_ms 100 w1) = Some (ok1, msg', w2)"
    and s: "and_search_OK ok1 w2 = Some (ok, w')"
    by (auto simp: sim9_send_at_def Option.bind_eq_Some_conv)
  show ?thesis
  proof (cases e)
    case False
    with m have "ok1 = False" "msg' = msg" "w2 = delay_ms 100 w1"
      by (simp_all add: and_sim9_msg_def)
    with s have "\<not> ok" "w' = delay_ms 100 w1" by (simp_all add: and_search_OK_def)
    with e False \<open>msg' = msg\<close> show ?thesis
      by (intro exI[of _ e] exI[of _ w1]) simp
  next
    case True
    with m obtain len where
      l: "sim9_msg msg sz ((eol (delay_ms 100 w1) + 1) mod 256) (delay_ms 100 w1)
            = Some (len, msg', w2)" and ok1: "ok1 = (len \<noteq> 0)"
      by (auto simp: and_sim9_msg_def Option.bind_eq_Some_conv)
    show ?thesis
    proof (cases "len = 0")
      case True
      with s ok1 have "\<not> ok" "w' = w2" by (simp_all add: and_search_OK_def)
      with e l True \<open>e\<close> show ?thesis
        by (intro exI[of _ e] exI[of _ w1]) simp
    next
      case False
      with s ok1 obtain b where
        "sim9_searchfor_P ''OK'' ((eol w2 + 1) mod 256) None 0 EEQUAL w2 = Some (ok, b, w')"
        by (auto simp: and_search_OK_def Option.bind_eq_Some_conv)
      with e l False \<open>e\<close> show ?thesis
        by (intro exI[of _ e] exI[of _ w1]) auto
    qed
  qed
qed

text \<open>
  Claim C5, as amended. On a usable port and with a buffer of at least \<open>sz\<close> bytes, a
  call of \<open>sim9_send_at\<close> with the shape \<open>MSGOK\<close> returns. A call that returns has run
  the echo phase (the search for the echoed command when echo is enabled) with
  a result \<open>e\<close>. If \<open>e\<close> is false the call returns false, the caller's buffer is
  untouched and the port is as the echo phase and the 100 ms wait left it: neither the
  payload nor the confirmation token is looked for. If \<open>e\<close> is true the payload is
  retrieved first; with none retrieved the call returns false at once, otherwise the
  result is the result of the search for \<open>OK\<close>. So the result is the conjunction of the
  echo check, the retrieval and the confirmation check, each evaluated only when the
  one before it held.
\<close>

theorem sim9_send_at_MSGOK_short_circuit:
  "(port_ok w \<and> sz \<le> length msg \<longrightarrow>
      (\<exists>ok msg' w'. sim9_send_at cmd msg sz SENDAT_TYPE_MSGOK w = Some (ok, msg', w'))) \<and>
   (\<forall>ok msg' w'. sim9_send_at cmd msg sz SENDAT_TYPE_MSGOK w = Some (ok, msg', w') \<longrightarrow>
      (\<exists>e w1. send_at_echo cmd w = Some (e, w1) \<and>
         (if \<not> e then \<not> ok \<and> msg' = msg \<and> w' = delay_ms 100 w1
          else \<exists>len w2.
                 sim9_msg msg sz ((eol (delay_ms 100 w1) + 1) mod 256) (delay_ms 100 w1)
                   = Some (len, msg', w2) \<and>
                 (if len = 0 then \<not> ok \<and> w' = w2
                  else \<exists>b. sim9_searchfor_P ''OK'' ((eol w2 + 1) mod 256) None 0 EEQUAL w2
                             = Some (ok, b, w')))))"
proof -
  have "port_ok w \<and> sz \<le> length msg \<longrightarrow>
      (\<exists>ok msg' w'. sim9_send_at cmd msg sz SENDAT_TYPE_MSGOK w = Some (ok, msg', w'))"
    using sim9_send_at_total[of w sz msg cmd SENDAT_TYPE_MSGOK] by blast
  then show ?thesis using sim9_send_at_MSGOK_returned[of cmd msg sz w] by blast
qed

text \<open>The theorem at a call whose echo, payload and confirmation all arrive: the call
  returns true, so the echo phase has returned true.\<close>

theorem sim9_send_at_MSGOK_short_circuit_witness:
  "port_ok cgsn_answered \<and> 18 \<le> length (imei cgsn_answered) \<and>
   (\<exists>msg' w'. sim9_send_at ''AT+CGSN'' (imei cgsn_answered) 18 SENDAT_TYPE_MSGOK cgsn_answered
       = Some (True, msg', w')) \<and>
   (\<exists>w1. send_at_echo ''AT+CGSN'' cgsn_answered = Some (True, w1))"
proof -
  have p: "port_ok cgsn_answered" "18 \<le> length (imei cgsn_answered)" by code_simp+
  note t = sim9_send_at_MSGOK_short_circuit[of cgsn_answered 18 "imei cgsn_answered" "''AT+CGSN''"]
  from t p obtain ok msg' w' where
    r: "sim9_send_at ''AT+CGSN'' (imei cgsn_answered) 18 SENDAT_TYPE_MSGOK cgsn_answered
          = Some (ok, msg', w')"
    by blast
  have "case sim9_send_at ''AT+CGSN'' (imei cgsn_answered) 18 SENDAT_TYPE_MSGOK cgsn_answered of
          None \<Rightarrow> False | Some (ok, msg', w') \<Rightarrow> ok"
    by code_simp
  with r have r': "sim9_send_at ''AT+CGSN'' (imei cgsn_answered) 18 SENDAT_TYPE_MSGOK cgsn_answered
          = Some (True, msg', w')" by simp
  from t r' have e: "\<exists>w1. send_at_echo ''AT+CGSN'' cgsn_answered = Some (True, w1)"
    by (auto split: if_splits)
  from r' have "\<exists>msg' w'. sim9_send_at ''AT+CGSN'' (imei cgsn_answered) 18 SENDAT_TYPE_MSGOK
          cgsn_answered = Some (True, msg', w')" by blast
  with p e show ?thesis by simp
qed

text \<open>The claim as stated fails: echo is enabled, the modem answers \<open>ERROR\<close> without an
  echo and a \<open>RING\<close> is waiting behind it. The echo check fails on \<open>ERROR\<close>, the call
  returns false, and the retrieval of the payload has not been attempted: \<open>RING\<close> is
  still waiting and the caller's buffer is as it was.\<close>

theorem sim9_send_at_echo_failed_counterexample:
  "st_echo (status cgsn_refused) \<and>
   (case sim9_send_at ''AT+CGSN'' (imei cgsn_refused) 18 SENDAT_TYPE_MSGOK cgsn_refused of
      None \<Rightarrow> False
    | Some (ok, msg', w') \<Rightarrow>
        \<not> ok \<and> msg' = imei cgsn_refused \<and> rxq (usart w') = [line ''RING''])"
  by code_simp

subsection \<open>The Escape Sequencer\<close>

lemma sent_rx_only: "rx_only w w' \<Longrightarrow> sent c w' = sent c w"
  by (simp add: rx_only_def sent_def)

lemma sent_send_P:
  "sim9_send_P s w = Some w' \<Longrightarrow> NUL \<notin> set s \<Longrightarrow>
     sent c w' = sent c w + (if s = c then 1 else 0)"
  using send_P_Some(2)[of s w w'] by (simp add: sent_def sent_append)

lemma sent_status_upd [simp]: "sent c (w\<lparr>status := s\<rparr>) = sent c w"
  by (simp add: sent_def)

lemma sent_errors_upd [simp]: "sent c (w\<lparr>errors := e\<rparr>) = sent c w"
  by (simp add: sent_def)

lemma sent_imei_upd [simp]: "sent c (w\<lparr>imei := m\<rparr>) = sent c w"
  by (simp add: sent_def)

lemma escape_sequence_props:
  assumes "escape_sequence w = Some w1"
  shows "session_kept w w1 \<and> sent ''AT'' w1 = sent ''AT'' w \<and>
         sent ''+++'' w1 = sent ''+++'' w + (if st_connected (status w) then 1 else 0)"
proof (cases "st_connected (status w)")
  case False
  with assms show ?thesis by (simp add: escape_sequence_def)
next
  case c: True
  with assms obtain wa where wa: "sim9_send_P ''+++'' (delay_ms 1000 w) = Some wa"
    and r: "(if st_echo (status wa) then do {
                wb \<leftarrow> sim9_send_P [CR, LF] (delay_ms 500 wa);
                (found, b, wc) \<leftarrow> sim9_searchfor_P ''+++'' 30 None 0 EQUAL wb;
                Some wc
              } else Some (delay_ms 1000 (delay_ms 500 wa))) = Some w1"
    by (auto simp: escape_sequence_def Option.bind_eq_Some_conv)
  have d: "rx_only w (delay_ms 1000 w)" by simp
  have ka: "session_kept w wa"
    using send_P_Some(1)[OF wa] d by (auto simp: rx_only_def intro: session_kept_trans)
  have sa: "sent ''AT'' wa = sent ''AT'' w" "sent ''+++'' wa = sent ''+++'' w + 1"
    using sent_send_P[OF wa, of "''AT''"] sent_send_P[OF wa, of "''+++''"] sent_rx_only[OF d]
    by simp_all
  show ?thesis
  proof (cases "st_echo (status wa)")
    case False
    with r have w1: "w1 = delay_ms 1000 (delay_ms 500 wa)" by simp
    have "rx_only wa w1" unfolding w1 by (rule rx_only_trans[OF rx_only_delay rx_only_delay])
    with ka sa c show ?thesis
      by (auto simp: sent_rx_only rx_only_def intro: session_kept_trans)
  next
    case True
    with r obtain wb found b where wb: "sim9_send_P [CR, LF] (delay_ms 500 wa) = Some wb"
      and sf: "sim9_searchfor_P ''+++'' 30 None 0 EQUAL wb = Some (found, b, w1)"
      by (auto simp: Option.bind_eq_Some_conv)
    have d2: "rx_only wa (delay_ms 500 wa)" by simp
    have kb: "session_kept wa wb"
      using send_P_Some(1)[OF wb] d2 by (auto simp: rx_only_def intro: session_kept_trans)
    have sb: "sent ''AT'' wb = sent ''AT'' wa" "sent ''+++'' wb = sent ''+++'' wa"
      using sent_send_P[OF wb, of "''AT''"] sent_send_P[OF wb, of "''+++''"] sent_rx_only[OF d2]
      by simp_all
    from rx_only_searchfor_P[OF sf] have "rx_only wb w1" .
    with ka kb sa sb c show ?thesis
      by (auto simp: sent_rx_only rx_only_def intro: session_kept_trans)
  qed
qed

lemma escape_sequence_txlog:
  assumes "escape_sequence w = Some w1"
  shows "txlog (usart w1) = txlog (usart w) @
           (if st_connected (status w)
            then (if st_echo (status w) then [''+++'', [CR, LF]] else [''+++''])
            else [])"
proof (cases "st_connected (status w)")
  case False
  with assms show ?thesis by (simp add: escape_sequence_def)
next
  case c: True
  with assms obtain wa where wa: "sim9_send_P ''+++'' (delay_ms 1000 w) = Some wa"
    and r: "(if st_echo (status wa) then do {
                wb \<leftarrow> sim9_send_P [CR, LF] (delay_ms 500 wa);
                (found, b, wc) \<leftarrow> sim9_searchfor_P ''+++'' 30 None 0 EQUAL wb;
                Some wc
              } else Some (delay_ms 1000 (delay_ms 500 wa))) = Some w1"
    by (auto simp: escape_sequence_def Option.bind_eq_Some_conv)
  have d: "rx_only w (delay_ms 1000 w)" by simp
  have ta: "txlog (usart wa) = txlog (usart w) @ [''+++'']"
    using send_P_Some(2)[OF wa] d by (simp add: rx_only_def)
  have ea: "st_echo (status wa) = st_echo (status w)"
    using send_P_Some(1)[OF wa] d by (simp add: rx_only_def session_kept_def)
  show ?thesis
  proof (cases "st_echo (status wa)")
    case False
    with r have w1: "w1 = delay_ms 1000 (delay_ms 500 wa)" by simp
    have "rx_only wa w1" unfolding w1 by (rule rx_only_trans[OF rx_only_delay rx_only_delay])
    with ta ea c False show ?thesis by (simp add: rx_only_def)
  next
    case True
    with r obtain wb found b where wb: "sim9_send_P [CR, LF] (delay_ms 500 wa) = Some wb"
      and sf: "sim9_searchfor_P ''+++'' 30 None 0 EQUAL wb = Some (found, b, w1)"
      by (auto simp: Option.bind_eq_Some_conv)
    have d2: "rx_only wa (delay_ms 500 wa)" by simp
    have tb: "txlog (usart wb) = txlog (usart wa) @ [[CR, LF]]"
      using send_P_Some(2)[OF wb] d2 by (simp add: rx_only_def)
    from rx_only_searchfor_P[OF sf] have "rx_only wb w1" .
    with ta tb ea c True show ?thesis by (simp add: rx_only_def)
  qed
qed

lemma escape_probe_0_props:
  assumes "escape_probe 0 w = Some (ok, msg, v)"
  shows "errors v = errors w" "rx_size (usart v) = rx_size (usart w)"
    "sent ''AT'' v \<le> sent ''AT'' w + 1"
    "2 \<le> rx_size (usart w) \<Longrightarrow> sent ''AT'' v = sent ''AT'' w + 1"
    "sent ''+++'' v = sent ''+++'' w + (if st_connected (status w) then 1 else 0)"
proof -
  from assms obtain w1 where p: "escape_sequence w = Some w1"
    and a: "sim9_send_at_P ''AT'' [] 0 SENDAT_TYPE_OK w1 = Some (ok, msg, v)"
    by (auto simp: Option.bind_eq_Some_conv)
  note pp = escape_sequence_props[OF p]
  have nn: "NUL \<notin> set ''AT''" by simp
  note k2 = sim9_send_at_P_Some(1)[OF a]
  have s1: "sent ''AT'' v \<le> sent ''AT'' w1 + 1" using sent_send_at_P(2)[OF a nn] by simp
  have s2: "sent ''+++'' v = sent ''+++'' w1" using sent_send_at_P(3)[OF a nn] by simp
  have s3: "2 \<le> rx_size (usart w1) \<Longrightarrow> sent ''AT'' v = sent ''AT'' w1 + 1"
    using sent_send_at_P(4)[OF a nn, of "''AT''"] by simp
  from pp k2 show "errors v = errors w" "rx_size (usart v) = rx_size (usart w)"
    by (simp_all add: session_kept_def)
  from pp s1 show "sent ''AT'' v \<le> sent ''AT'' w + 1" by simp
  from pp s3 show "2 \<le> rx_size (usart w) \<Longrightarrow> sent ''AT'' v = sent ''AT'' w + 1"
    by (simp add: session_kept_def)
  from pp s2 show "sent ''+++'' v = sent ''+++'' w + (if st_connected (status w) then 1 else 0)"
    by simp
qed

lemma sim9_escape_body_probe:
  assumes "sim9_escape_body w = Some (brk, w')"
  shows "\<exists>msg v. escape_probe 0 w = Some (brk, msg, v) \<and>
           w' = v\<lparr>status := (status v)\<lparr>st_connected := \<not> brk\<rparr>\<rparr>"
  using assms
  by (auto simp: sim9_escape_body_def Option.bind_eq_Some_conv split: if_splits)

lemma sim9_escape_loop_errors:
  "sim9_escape_loop n w = Some w' \<Longrightarrow> errors w' = errors w"
proof (induction n arbitrary: w)
  case 0
  then show ?case by simp
next
  case (Suc n)
  then obtain brk w1 where b: "sim9_escape_body w = Some (brk, w1)"
    and r: "(if brk then Some w1 else sim9_escape_loop n w1) = Some w'"
    by (auto simp: Option.bind_eq_Some_conv)
  from sim9_escape_body_probe[OF b] obtain msg v where
    p: "escape_probe 0 w = Some (brk, msg, v)"
    and w1: "w1 = v\<lparr>status := (status v)\<lparr>st_connected := \<not> brk\<rparr>\<rparr>" by blast
  from escape_probe_0_props(1)[OF p] w1 have "errors w1 = errors w" by simp
  with r Suc.IH[of w1] show ?case by (cases brk) auto
qed

lemma escape_probe_Suc:
  "escape_probe 0 w = Some (ok, msg, v) \<Longrightarrow>
     escape_probe (Suc k) w = escape_probe k (v\<lparr>status := (status v)\<lparr>st_connected := True\<rparr>\<rparr>)"
  by (auto simp: Option.bind_eq_Some_conv)

lemma sim9_escape_loop_run:
  "sim9_escape_loop (Suc n) w = Some w' \<Longrightarrow>
     \<exists>k ok msg v. k \<le> n \<and> escape_probe k w = Some (ok, msg, v) \<and>
       (\<forall>j<k. \<exists>m u. escape_probe j w = Some (False, m, u)) \<and>
       (ok \<or> k = n) \<and>
       w' = v\<lparr>status := (status v)\<lparr>st_connected := \<not> ok\<rparr>\<rparr> \<and>
       errors v = errors w \<and>
       sent ''AT'' v \<le> sent ''AT'' w + (k + 1) \<and>
       (2 \<le> rx_size (usart w) \<longrightarrow> sent ''AT'' v = sent ''AT'' w + (k + 1)) \<and>
       sent ''+++'' v = sent ''+++'' w + (if st_connected (status w) then k + 1 else k)"
proof (induction n arbitrary: w)
  case 0
  then obtain brk where b: "sim9_escape_body w = Some (brk, w')"
    by (auto simp: Option.bind_eq_Some_conv split: if_splits)
  from sim9_escape_body_probe[OF b] obtain msg v where
    p: "escape_probe 0 w = Some (brk, msg, v)"
    and w': "w' = v\<lparr>status := (status v)\<lparr>st_connected := \<not> brk\<rparr>\<rparr>" by blast
  note pp = escape_probe_0_props[OF p]
  show ?case
    using p w' pp by (intro exI[of _ 0] exI[of _ brk] exI[of _ msg] exI[of _ v]) simp
next
  case (Suc n)
  then obtain brk w1 where b: "sim9_escape_body w = Some (brk, w1)"
    and r: "(if brk then Some w1 else sim9_escape_loop (Suc n) w1) = Some w'"
    by (auto simp: Option.bind_eq_Some_conv)
  from sim9_escape_body_probe[OF b] obtain msg v where
    p: "escape_probe 0 w = Some (brk, msg, v)"
    and w1: "w1 = v\<lparr>status := (status v)\<lparr>st_connected := \<not> brk\<rparr>\<rparr>" by blast
  note pp = escape_probe_0_props[OF p]
  show ?case
  proof (cases brk)
    case True
    with r have "w' = w1" by simp
    with p w1 pp True show ?thesis
      by (intro exI[of _ 0] exI[of _ brk] exI[of _ msg] exI[of _ v]) simp
  next
    case False
    with r have l: "sim9_escape_loop (Suc n) w1 = Some w'" by simp
    from Suc.IH[OF l] obtain k ok m2 v2 where
      k: "k \<le> n" and q: "escape_probe k w1 = Some (ok, m2, v2)"
      and f: "\<forall>j<k. \<exists>m u. escape_probe j w1 = Some (False, m, u)"
      and e: "ok \<or> k = n"
      and w': "w' = v2\<lparr>status := (status v2)\<lparr>st_connected := \<not> ok\<rparr>\<rparr>"
      and er: "errors v2 = errors w1"
      and s1: "sent ''AT'' v2 \<le> sent ''AT'' w1 + (k + 1)"
      and s2: "2 \<le> rx_size (usart w1) \<longrightarrow> sent ''AT'' v2 = sent ''AT'' w1 + (k + 1)"
      and s3: "sent ''+++'' v2 = sent ''+++'' w1 + (if st_connected (status w1) then k + 1 else k)"
      by blast
    have sh: "escape_probe (Suc j) w = escape_probe j w1" for j
      using escape_probe_Suc[OF p, of j] w1 False by simp
    have f': "\<forall>j<Suc k. \<exists>m u. escape_probe j w = Some (False, m, u)"
    proof (intro allI impI)
      fix j assume "j < Suc k"
      show "\<exists>m u. escape_probe j w = Some (False, m, u)"
      proof (cases j)
        case 0
        with p False show ?thesis by auto
      next
        case (Suc i)
        with \<open>j < Suc k\<close> f sh[of i] show ?thesis by auto
      qed
    qed
    have c1: "st_connected (status w1)" using w1 False by simp
    have a1: "sent ''AT'' w1 = sent ''AT'' v" "sent ''+++'' w1 = sent ''+++'' v"
      "rx_size (usart w1) = rx_size (usart v)" "errors w1 = errors v"
      using w1 by simp_all
    have t1: "sent ''AT'' v2 \<le> sent ''AT'' w + (Suc k + 1)"
      using s1 a1 pp(3) by simp
    have t2: "2 \<le> rx_size (usart w) \<longrightarrow> sent ''AT'' v2 = sent ''AT'' w + (Suc k + 1)"
      using s2 a1 pp(2) pp(4) by simp
    have t3: "sent ''+++'' v2 = sent ''+++'' w + (if st_connected (status w) then Suc k + 1 else Suc k)"
      using s3 c1 a1 pp(5) by simp
    have t4: "errors v2 = errors w" using er a1 pp(1) by simp
    from k q f' e w' t1 t2 t3 t4 sh[of k] show ?thesis
      by (intro exI[of _ "Suc k"] exI[of _ ok] exI[of _ m2] exI[of _ v2]) simp
  qed
qed

lemma sim9_escape_run:
  assumes "sim9_escape w = Some w'"
  shows "\<exists>k ok msg v. k < 3 \<and> escape_probe k w = Some (ok, msg, v) \<and>
       (\<forall>j<k. \<exists>m u. escape_probe j w = Some (False, m, u)) \<and>
       (ok \<or> k = 2) \<and>
       w' = v\<lparr>status := (status v)\<lparr>st_connected := \<not> ok\<rparr>,
              errors := (errors v)\<lparr>er_esc := \<not> ok\<rparr>\<rparr> \<and>
       sent ''AT'' w' \<le> sent ''AT'' w + (k + 1) \<and>
       (2 \<le> rx_size (usart w) \<longrightarrow> sent ''AT'' w' = sent ''AT'' w + (k + 1)) \<and>
       sent ''+++'' w' = sent ''+++'' w + (if st_connected (status w) then k + 1 else k)"
proof -
  from assms obtain w1 where l: "sim9_escape_loop (Suc 2) w = Some w1"
    and r: "(if st_connected (status w1) then Some (w1\<lparr>errors := (errors w1)\<lparr>er_esc := True\<rparr>\<rparr>)
             else Some (w1\<lparr>errors := (errors w1)\<lparr>er_esc := False\<rparr>\<rparr>)) = Some w'"
    unfolding sim9_escape_def by (auto simp: Option.bind_eq_Some_conv numeral_3_eq_3)
  have w': "w' = w1\<lparr>errors := (errors w1)\<lparr>er_esc := st_connected (status w1)\<rparr>\<rparr>"
    using r by (cases "st_connected (status w1)") simp_all
  from sim9_escape_loop_run[OF l] obtain k ok msg v where
    k: "k \<le> 2" and q: "escape_probe k w = Some (ok, msg, v)"
    and f: "\<forall>j<k. \<exists>m u. escape_probe j w = Some (False, m, u)"
    and e: "ok \<or> k = 2"
    and w1: "w1 = v\<lparr>status := (status v)\<lparr>st_connected := \<not> ok\<rparr>\<rparr>"
    and s1: "sent ''AT'' v \<le> sent ''AT'' w + (k + 1)"
    and s2: "2 \<le> rx_size (usart w) \<longrightarrow> sent ''AT'' v = sent ''AT'' w + (k + 1)"
    and s3: "sent ''+++'' v = sent ''+++'' w + (if st_connected (status w) then k + 1 else k)"
    by blast
  have eq: "w' = v\<lparr>status := (status v)\<lparr>st_connected := \<not> ok\<rparr>,
              errors := (errors v)\<lparr>er_esc := \<not> ok\<rparr>\<rparr>"
    unfolding w' w1 by simp
  from k q f e eq s1 s2 s3 show ?thesis
    by (intro exI[of _ k] exI[of _ ok] exI[of _ msg] exI[of _ v]) simp
qed

text \<open>
  Claim C9. On a usable port \<open>sim9_escape\<close> returns. Whenever it returns, the
  escape-error flag equals the link-connected flag, and both were written from the
  verdict of a probe \<open>AT\<close> that the call made: there is a pass \<open>k\<close> among its at most 3
  passes (counted from 0) such that the probes of all passes before it failed, the
  probe of pass \<open>k\<close> succeeded or pass \<open>k\<close> was the third, and the state returned is the
  state behind that probe with both flags clear if the probe succeeded and both flags
  set if it failed. So the flags are clear exactly when \<open>status.connected\<close> was cleared
  by a successful probe, and set exactly when all 3 probes failed. The probe was sent
  \<open>k + 1\<close> times (exactly, when the receive buffer holds the 2 characters of the
  command) and the escape token \<open>+++\<close> once in every pass that began with the link
  believed up: in every pass but the first one, and in the first one if the link was
  believed up at the call. The escape sequence of a pass changes nothing of the session
  but the port and sends the token and, with echo enabled, the line end, or nothing at
  all when the link is believed down.
\<close>

theorem sim9_escape_flag_mirrors_link:
  "(port_ok w \<longrightarrow> (\<exists>w'. sim9_escape w = Some w')) \<and>
   (\<forall>w'. sim9_escape w = Some w' \<longrightarrow>
      er_esc (errors w') = st_connected (status w') \<and>
      (\<exists>k ok msg v. k < 3 \<and> escape_probe k w = Some (ok, msg, v) \<and>
         (\<forall>j<k. \<exists>m u. escape_probe j w = Some (False, m, u)) \<and>
         (ok \<or> k = 2) \<and>
         w' = v\<lparr>status := (status v)\<lparr>st_connected := \<not> ok\<rparr>,
                errors := (errors v)\<lparr>er_esc := \<not> ok\<rparr>\<rparr> \<and>
         sent ''AT'' w' \<le> sent ''AT'' w + (k + 1) \<and>
         (2 \<le> rx_size (usart w) \<longrightarrow> sent ''AT'' w' = sent ''AT'' w + (k + 1)) \<and>
         sent ''+++'' w' = sent ''+++'' w + (if st_connected (status w) then k + 1 else k))) \<and>
   (\<forall>w1. escape_sequence w = Some w1 \<longrightarrow>
      session_kept w w1 \<and>
      txlog (usart w1) = txlog (usart w) @
        (if st_connected (status w)
         then (if st_echo (status w) then [''+++'', [CR, LF]] else [''+++''])
         else []))"
proof -
  have t: "port_ok w \<longrightarrow> (\<exists>w'. sim9_escape w = Some w')"
    using sim9_escape_total[of w] by blast
  have r: "\<forall>w'. sim9_escape w = Some w' \<longrightarrow>
      er_esc (errors w') = st_connected (status w') \<and>
      (\<exists>k ok msg v. k < 3 \<and> escape_probe k w = Some (ok, msg, v) \<and>
         (\<forall>j<k. \<exists>m u. escape_probe j w = Some (False, m, u)) \<and>
         (ok \<or> k = 2) \<and>
         w' = v\<lparr>status := (status v)\<lparr>st_connected := \<not> ok\<rparr>,
                errors := (errors v)\<lparr>er_esc := \<not> ok\<rparr>\<rparr> \<and>
         sent ''AT'' w' \<le> sent ''AT'' w + (k + 1) \<and>
         (2 \<le> rx_size (usart w) \<longrightarrow> sent ''AT'' w' = sent ''AT'' w + (k + 1)) \<and>
         sent ''+++'' w' = sent ''+++'' w + (if st_connected (status w) then k + 1 else k))"
  proof (intro allI impI)
    fix w' assume a: "sim9_escape w = Some w'"
    from sim9_escape_run[OF a] obtain k ok msg v where
      e: "w' = v\<lparr>status := (status v)\<lparr>st_connected := \<not> ok\<rparr>,
                errors := (errors v)\<lparr>er_esc := \<not> ok\<rparr>\<rparr>"
      by blast
    then have x: "er_esc (errors w') = st_connected (status w')" by simp
    from x sim9_escape_run[OF a]
    show "er_esc (errors w') = st_connected (status w') \<and>
      (\<exists>k ok msg v. k < 3 \<and> escape_probe k w = Some (ok, msg, v) \<and>
         (\<forall>j<k. \<exists>m u. escape_probe j w = Some (False, m, u)) \<and>
         (ok \<or> k = 2) \<and>
         w' = v\<lparr>status := (status v)\<lparr>st_connected := \<not> ok\<rparr>,
                errors := (errors v)\<lparr>er_esc := \<not> ok\<rparr>\<rparr> \<and>
         sent ''AT'' w' \<le> sent ''AT'' w + (k + 1) \<and>
         (2 \<le> rx_size (usart w) \<longrightarrow> sent ''AT'' w' = sent ''AT'' w + (k + 1)) \<and>
         sent ''+++'' w' = sent ''+++'' w + (if st_connected (status w) then k + 1 else k))"
      by (rule conjI)
  qed
  have s: "\<forall>w1. escape_sequence w = Some w1 \<longrightarrow>
      session_kept w w1 \<and>
      txlog (usart w1) = txlog (usart w) @
        (if st_connected (status w)
         then (if st_echo (status w) then [''+++'', [CR, LF]] else [''+++''])
         else [])"
    using escape_sequence_props[of w] escape_sequence_txlog[of w] by blast
  from t r s show ?thesis by (intro conjI)
qed

text \<open>The theorem at three inputs. The link is believed up and the modem answers the
  probe of the first pass: both flags end clear after 1 probe and 1 escape token. The
  link is believed up and nothing arrives: both flags end set after 3 probes and 3
  tokens. The link is believed down and nothing arrives: both flags end set after 3
  probes and 2 tokens.\<close>

theorem sim9_escape_flag_mirrors_link_witness:
  "port_ok escape_answered \<and> port_ok escape_unanswered \<and> port_ok link_down_unanswered \<and>
   (\<exists>w'. sim9_escape escape_answered = Some w' \<and>
      \<not> st_connected (status w') \<and> \<not> er_esc (errors w') \<and>
      sent ''AT'' w' = 1 \<and> sent ''+++'' w' = 1) \<and>
   (\<exists>w'. sim9_escape escape_unanswered = Some w' \<and>
      st_connected (status w') \<and> er_esc (errors w') \<and>
      sent ''AT'' w' = 3 \<and> sent ''+++'' w' = 3) \<and>
   (\<exists>w'. sim9_escape link_down_unanswered = Some w' \<and>
      st_connected (status w') \<and> er_esc (errors w') \<and>
      sent ''AT'' w' = 3 \<and> sent ''+++'' w' = 2) \<and>
   (\<exists>w1. escape_sequence escape_answered = Some w1 \<and>
      session_kept escape_answered w1 \<and> txlog (usart w1) = [''+++'', [CR, LF]])"
proof -
  let ?a = escape_answered
  let ?b = escape_unanswered
  let ?c = link_down_unanswered
  have pa: "port_ok ?a" and pb: "port_ok ?b" and pc: "port_ok ?c" by code_simp+
  have ia: "2 \<le> rx_size (usart ?a) \<and> st_connected (status ?a) \<and>
            sent ''AT'' ?a = 0 \<and> sent ''+++'' ?a = 0" by code_simp
  have ib: "2 \<le> rx_size (usart ?b) \<and> st_connected (status ?b) \<and>
            sent ''AT'' ?b = 0 \<and> sent ''+++'' ?b = 0" by code_simp
  have ic: "2 \<le> rx_size (usart ?c) \<and> \<not> st_connected (status ?c) \<and>
            sent ''AT'' ?c = 0 \<and> sent ''+++'' ?c = 0" by code_simp
  note ta = sim9_escape_flag_mirrors_link[of ?a]
  note tb = sim9_escape_flag_mirrors_link[of ?b]
  note tc = sim9_escape_flag_mirrors_link[of ?c]
  from ta pa obtain wa where a: "sim9_escape ?a = Some wa" by blast
  from tb pb obtain wb where b: "sim9_escape ?b = Some wb" by blast
  from tc pc obtain wc where c: "sim9_escape ?c = Some wc" by blast
  have ea: "case escape_probe 0 ?a of None \<Rightarrow> False | Some (ok, m, u) \<Rightarrow> ok"
    by code_simp
  have eb: "case sim9_escape ?b of None \<Rightarrow> False | Some w' \<Rightarrow> st_connected (status w')"
    by code_simp
  have ec: "case sim9_escape ?c of None \<Rightarrow> False | Some w' \<Rightarrow> st_connected (status w')"
    by code_simp
  have 1: "\<not> st_connected (status wa) \<and> \<not> er_esc (errors wa) \<and>
           sent ''AT'' wa = 1 \<and> sent ''+++'' wa = 1"
  proof -
    from ta a obtain k ok msg v where
      q: "escape_probe k ?a = Some (ok, msg, v)"
      and f: "\<forall>j<k. \<exists>m u. escape_probe j ?a = Some (False, m, u)"
      and w': "wa = v\<lparr>status := (status v)\<lparr>st_connected := \<not> ok\<rparr>,
                errors := (errors v)\<lparr>er_esc := \<not> ok\<rparr>\<rparr>"
      and s: "2 \<le> rx_size (usart ?a) \<longrightarrow> sent ''AT'' wa = sent ''AT'' ?a + (k + 1)"
        "sent ''+++'' wa = sent ''+++'' ?a + (if st_connected (status ?a) then k + 1 else k)"
      by blast
    have k0: "k = 0"
    proof (rule ccontr)
      assume "k \<noteq> 0"
      with f obtain m u where "escape_probe 0 ?a = Some (False, m, u)" by auto
      with ea show False by (simp del: escape_probe.simps)
    qed
    with q ea have "ok" by (simp del: escape_probe.simps)
    with w' s k0 ia show ?thesis by simp
  qed
  have 2: "st_connected (status wb) \<and> er_esc (errors wb) \<and>
           sent ''AT'' wb = 3 \<and> sent ''+++'' wb = 3"
  proof -
    from tb b obtain k ok msg v where
      e: "ok \<or> k = 2"
      and w': "wb = v\<lparr>status := (status v)\<lparr>st_connected := \<not> ok\<rparr>,
                errors := (errors v)\<lparr>er_esc := \<not> ok\<rparr>\<rparr>"
      and s: "2 \<le> rx_size (usart ?b) \<longrightarrow> sent ''AT'' wb = sent ''AT'' ?b + (k + 1)"
        "sent ''+++'' wb = sent ''+++'' ?b + (if st_connected (status ?b) then k + 1 else k)"
      by blast
    from eb b have "st_connected (status wb)" by simp
    with w' have "\<not> ok" by simp
    with e have "k = 2" by simp
    with w' s ib \<open>\<not> ok\<close> show ?thesis by simp
  qed
  have 3: "st_connected (status wc) \<and> er_esc (errors wc) \<and>
           sent ''AT'' wc = 3 \<and> sent ''+++'' wc = 2"
  proof -
    from tc c obtain k ok msg v where
      e: "ok \<or> k = 2"
      and w': "wc = v\<lparr>status := (status v)\<lparr>st_connected := \<not> ok\<rparr>,
                errors := (errors v)\<lparr>er_esc := \<not> ok\<rparr>\<rparr>"
      and s: "2 \<le> rx_size (usart ?c) \<longrightarrow> sent ''AT'' wc = sent ''AT'' ?c + (k + 1)"
        "sent ''+++'' wc = sent ''+++'' ?c + (if st_connected (status ?c) then k + 1 else k)"
      by blast
    from ec c have "st_connected (status wc)" by simp
    with w' have "\<not> ok" by simp
    with e have "k = 2" by simp
    with w' s ic \<open>\<not> ok\<close> show ?thesis by simp
  qed
  have "case escape_sequence ?a of None \<Rightarrow> False | Some w1 \<Rightarrow> True" by code_simp
  then obtain w1 where q: "escape_sequence ?a = Some w1" by (auto split: option.splits)
  have ja: "st_echo (status ?a) \<and> txlog (usart ?a) = []" by code_simp
  from ta q ia ja
  have 4: "session_kept ?a w1 \<and> txlog (usart w1) = [''+++'', [CR, LF]]" by simp
  from pa pb pc a b c 1 2 3 q 4 show ?thesis by blast
qed

subsection \<open>Bring-up stages\<close>

lemma imei_loop_flag_clear: "\<not> er_imei (errors w) \<Longrightarrow> imei_loop n w = Some w"
  by (cases n) simp_all

lemma er_imei_already: "er_imei e \<Longrightarrow> e\<lparr>er_imei := True\<rparr> = e"
  by (cases e) simp

lemma cgsn_attempt_Suc:
  "cgsn_attempt 0 w = Some (ok, msg, v) \<Longrightarrow>
     cgsn_attempt (Suc k) w = cgsn_attempt k (v\<lparr>imei := msg\<rparr>)"
  by (auto simp: Option.bind_eq_Some_conv)

lemma imei_loop_run:
  "imei_loop (Suc n) w = Some w' \<Longrightarrow> er_imei (errors w) \<Longrightarrow>
     \<exists>k ok msg v. k \<le> n \<and> cgsn_attempt k w = Some (ok, msg, v) \<and>
       (\<forall>j<k. \<exists>b m u. cgsn_attempt j w = Some (b, m, u) \<and> \<not> (b \<and> 14 < strlen m)) \<and>
       ((ok \<and> 14 < strlen msg) \<or> k = n) \<and>
       w' = v\<lparr>imei := msg, errors := (errors v)\<lparr>er_imei := \<not> (ok \<and> 14 < strlen msg)\<rparr>\<rparr> \<and>
       sent ''AT+CGSN'' v \<le> sent ''AT+CGSN'' w + (k + 1) \<and>
       (7 \<le> rx_size (usart w) \<longrightarrow> sent ''AT+CGSN'' v = sent ''AT+CGSN'' w + (k + 1))"
proof (induction n arbitrary: w)
  case 0
  then obtain ok msg w1 where
    a: "sim9_send_at_P ''AT+CGSN'' (imei w) IMEI_SIZE SENDAT_TYPE_MSGOK w = Some (ok, msg, w1)"
    and r: "(if ok \<and> 14 < strlen msg
             then imei_loop 0 (w1\<lparr>imei := msg, errors := (errors w1)\<lparr>er_imei := False\<rparr>\<rparr>)
             else imei_loop 0 (w1\<lparr>imei := msg\<rparr>)) = Some w'"
    by (auto simp: Option.bind_eq_Some_conv)
  have k: "errors w1 = errors w" "rx_size (usart w1) = rx_size (usart w)"
    using sim9_send_at_P_Some(1)[OF a] by (simp_all add: session_kept_def)
  have nn: "NUL \<notin> set ''AT+CGSN''" by simp
  have ub: "sent ''AT+CGSN'' w1 \<le> sent ''AT+CGSN'' w + 1"
    using sent_send_at_P(2)[OF a nn] by simp
  have ex: "7 \<le> rx_size (usart w) \<Longrightarrow> sent ''AT+CGSN'' w1 = sent ''AT+CGSN'' w + 1"
    using sent_send_at_P(4)[OF a nn, of "''AT+CGSN''"] by simp
  have e1: "er_imei (errors w1)" using k 0 by simp
  have w': "w' = w1\<lparr>imei := msg, errors := (errors w1)\<lparr>er_imei := \<not> (ok \<and> 14 < strlen msg)\<rparr>\<rparr>"
    using r er_imei_already[OF e1] by (auto split: if_splits)
  have c: "cgsn_attempt 0 w = Some (ok, msg, w1)" using a by simp
  from c w' ub ex show ?case
    by (intro exI[of _ 0] exI[of _ ok] exI[of _ msg] exI[of _ w1]) simp
next
  case (Suc n)
  from Suc.prems obtain ok msg w1 where
    a: "sim9_send_at_P ''AT+CGSN'' (imei w) IMEI_SIZE SENDAT_TYPE_MSGOK w = Some (ok, msg, w1)"
    and r: "(if ok \<and> 14 < strlen msg
             then imei_loop (Suc n) (w1\<lparr>imei := msg, errors := (errors w1)\<lparr>er_imei := False\<rparr>\<rparr>)
             else imei_loop (Suc n) (w1\<lparr>imei := msg\<rparr>)) = Some w'"
    by (auto simp: Option.bind_eq_Some_conv)
  have k: "errors w1 = errors w" "rx_size (usart w1) = rx_size (usart w)"
    using sim9_send_at_P_Some(1)[OF a] by (simp_all add: session_kept_def)
  have nn: "NUL \<notin> set ''AT+CGSN''" by simp
  have ub: "sent ''AT+CGSN'' w1 \<le> sent ''AT+CGSN'' w + 1"
    using sent_send_at_P(2)[OF a nn] by simp
  have ex: "7 \<le> rx_size (usart w) \<Longrightarrow> sent ''AT+CGSN'' w1 = sent ''AT+CGSN'' w + 1"
    using sent_send_at_P(4)[OF a nn, of "''AT+CGSN''"] by simp
  have c: "cgsn_attempt 0 w = Some (ok, msg, w1)" using a by simp
  show ?case
  proof (cases "ok \<and> 14 < strlen msg")
    case True
    let ?w2 = "w1\<lparr>imei := msg, errors := (errors w1)\<lparr>er_imei := False\<rparr>\<rparr>"
    from r True have "imei_loop (Suc n) ?w2 = Some w'" by (simp del: imei_loop.simps)
    moreover have "imei_loop (Suc n) ?w2 = Some ?w2" by (rule imei_loop_flag_clear) simp
    ultimately have w': "w' = ?w2" by simp
    from c w' ub ex True show ?thesis
      by (intro exI[of _ 0] exI[of _ ok] exI[of _ msg] exI[of _ w1]) simp
  next
    case False
    let ?w2 = "w1\<lparr>imei := msg\<rparr>"
    from r False have l: "imei_loop (Suc n) ?w2 = Some w'"
      by (simp del: imei_loop.simps split: if_splits)
    have e2: "er_imei (errors ?w2)" using k Suc.prems(2) by simp
    from Suc.IH[OF l e2] obtain k' ok2 m2 v2 where
      k': "k' \<le> n" and q: "cgsn_attempt k' ?w2 = Some (ok2, m2, v2)"
      and f: "\<forall>j<k'. \<exists>b m u. cgsn_attempt j ?w2 = Some (b, m, u) \<and> \<not> (b \<and> 14 < strlen m)"
      and e: "(ok2 \<and> 14 < strlen m2) \<or> k' = n"
      and w': "w' = v2\<lparr>imei := m2, errors := (errors v2)\<lparr>er_imei := \<not> (ok2 \<and> 14 < strlen m2)\<rparr>\<rparr>"
      and s1: "sent ''AT+CGSN'' v2 \<le> sent ''AT+CGSN'' ?w2 + (k' + 1)"
      and s2: "7 \<le> rx_size (usart ?w2) \<longrightarrow> sent ''AT+CGSN'' v2 = sent ''AT+CGSN'' ?w2 + (k' + 1)"
      by blast
    have sh: "cgsn_attempt (Suc j) w = cgsn_attempt j ?w2" for j
      using cgsn_attempt_Suc[OF c, of j] by simp
    have f': "\<forall>j<Suc k'. \<exists>b m u. cgsn_attempt j w = Some (b, m, u) \<and> \<not> (b \<and> 14 < strlen m)"
    proof (intro allI impI)
      fix j assume "j < Suc k'"
      show "\<exists>b m u. cgsn_attempt j w = Some (b, m, u) \<and> \<not> (b \<and> 14 < strlen m)"
      proof (cases j)
        case 0
        with c False show ?thesis by auto
      next
        case (Suc i)
        with \<open>j < Suc k'\<close> f sh[of i] show ?thesis by auto
      qed
    qed
    have t1: "sent ''AT+CGSN'' v2 \<le> sent ''AT+CGSN'' w + (Suc k' + 1)"
      using s1 ub by simp
    have t2: "7 \<le> rx_size (usart w) \<longrightarrow> sent ''AT+CGSN'' v2 = sent ''AT+CGSN'' w + (Suc k' + 1)"
      using s2 k ex by simp
    from k' q f' e w' t1 t2 sh[of k'] show ?thesis
      by (intro exI[of _ "Suc k'"] exI[of _ ok2] exI[of _ m2] exI[of _ v2]) simp
  qed
qed

lemma imei_get_run:
  assumes "imei_get w = Some w'"
  shows "\<exists>k ok msg v. k < 10 \<and>
       cgsn_attempt k (sim9_clear_rx_buff
          (w\<lparr>imei := (imei w)[0 := NUL], errors := (errors w)\<lparr>er_imei := True\<rparr>\<rparr>))
         = Some (ok, msg, v) \<and>
       (\<forall>j<k. \<exists>b m u. cgsn_attempt j (sim9_clear_rx_buff
          (w\<lparr>imei := (imei w)[0 := NUL], errors := (errors w)\<lparr>er_imei := True\<rparr>\<rparr>))
         = Some (b, m, u) \<and> \<not> (b \<and> 14 < strlen m)) \<and>
       ((ok \<and> 14 < strlen msg) \<or> k = 9) \<and>
       w' = v\<lparr>imei := msg, errors := (errors v)\<lparr>er_imei := \<not> (ok \<and> 14 < strlen msg)\<rparr>\<rparr> \<and>
       sent ''AT+CGSN'' w' \<le> sent ''AT+CGSN'' w + (k + 1) \<and>
       (7 \<le> rx_size (usart w) \<longrightarrow> sent ''AT+CGSN'' w' = sent ''AT+CGSN'' w + (k + 1))"
proof -
  let ?w0 = "sim9_clear_rx_buff (w\<lparr>imei := (imei w)[0 := NUL],
                errors := (errors w)\<lparr>er_imei := True\<rparr>\<rparr>)"
  from assms have l: "imei_loop (Suc 9) ?w0 = Some w'"
    by (simp add: imei_get_def split: if_splits)
  have z: "sent ''AT+CGSN'' ?w0 = sent ''AT+CGSN'' w" "rx_size (usart ?w0) = rx_size (usart w)"
    and e0: "er_imei (errors ?w0)"
    by (simp_all add: sent_def sim9_clear_rx_buff_def usart_clear_rx_buffer_def)
  from imei_loop_run[OF l e0] obtain k ok msg v where
    k: "k \<le> 9" and q: "cgsn_attempt k ?w0 = Some (ok, msg, v)"
    and f: "\<forall>j<k. \<exists>b m u. cgsn_attempt j ?w0 = Some (b, m, u) \<and> \<not> (b \<and> 14 < strlen m)"
    and e: "(ok \<and> 14 < strlen msg) \<or> k = 9"
    and w': "w' = v\<lparr>imei := msg, errors := (errors v)\<lparr>er_imei := \<not> (ok \<and> 14 < strlen msg)\<rparr>\<rparr>"
    and s1: "sent ''AT+CGSN'' v \<le> sent ''AT+CGSN'' ?w0 + (k + 1)"
    and s2: "7 \<le> rx_size (usart ?w0) \<longrightarrow> sent ''AT+CGSN'' v = sent ''AT+CGSN'' ?w0 + (k + 1)"
    by blast
  have t1: "sent ''AT+CGSN'' w' \<le> sent ''AT+CGSN'' w + (k + 1)"
    using s1 z(1) unfolding w' by simp
  have t2: "7 \<le> rx_size (usart w) \<longrightarrow> sent ''AT+CGSN'' w' = sent ''AT+CGSN'' w + (k + 1)"
    using s2 z unfolding w' by simp
  from k q f e w' t1 t2 show ?thesis
    by (intro exI[of _ k] exI[of _ ok] exI[of _ msg] exI[of _ v]) simp
qed

text \<open>
  Claim C7. On a usable port and with the identity buffer of \<open>IMEI_SIZE\<close> bytes, the
  identity retrieval (the function \<open>imei\<close> of the source, here \<open>imei_get\<close>, the name
  being taken by the member of the structure) returns. Whenever it returns, it has
  emptied the identity buffer, set the identity-error flag and cleared the receive
  buffer, and from that state \<open>w0\<close> it has made the MSGOK-shaped command \<open>AT+CGSN\<close> up
  to 10 times: there is an attempt \<open>k\<close> among the 10 (counted from 0) such that no
  attempt before it succeeded with an identity of more than 14 characters, attempt
  \<open>k\<close> did so or was the tenth, and the state returned is the state behind attempt
  \<open>k\<close> with the identity buffer as that attempt left it and the identity-error flag
  clear exactly when that attempt succeeded with an identity of more than 14
  characters. So the flag is cleared only by an attempt that retrieved such an
  identity, and it is left set when all 10 attempts fail that test. The command was
  sent \<open>k + 1\<close> times (exactly, when the receive buffer holds its 7 characters).
\<close>

theorem imei_attempts:
  "(port_ok w \<and> 18 \<le> length (imei w) \<longrightarrow> (\<exists>w'. imei_get w = Some w')) \<and>
   (\<forall>w'. imei_get w = Some w' \<longrightarrow>
      (let w0 = sim9_clear_rx_buff
                  (w\<lparr>imei := (imei w)[0 := NUL], errors := (errors w)\<lparr>er_imei := True\<rparr>\<rparr>)
       in \<exists>k ok msg v. k < 10 \<and> cgsn_attempt k w0 = Some (ok, msg, v) \<and>
            (\<forall>j<k. \<exists>b m u. cgsn_attempt j w0 = Some (b, m, u) \<and> \<not> (b \<and> 14 < strlen m)) \<and>
            ((ok \<and> 14 < strlen msg) \<or> k = 9) \<and>
            w' = v\<lparr>imei := msg,
                   errors := (errors v)\<lparr>er_imei := \<not> (ok \<and> 14 < strlen msg)\<rparr>\<rparr> \<and>
            sent ''AT+CGSN'' w' \<le> sent ''AT+CGSN'' w + (k + 1) \<and>
            (7 \<le> rx_size (usart w) \<longrightarrow>
               sent ''AT+CGSN'' w' = sent ''AT+CGSN'' w + (k + 1))))"
  unfolding Let_def using imei_get_total[of w] imei_get_run[of w] by blast

text \<open>The theorem at two inputs: the identity arrives at the first attempt, which
  clears the flag after 1 command; the modem stays silent, and the flag is left set
  after 10 commands.\<close>

theorem imei_attempts_witness:
  "port_ok cgsn_arriving \<and> 18 \<le> length (imei cgsn_arriving) \<and>
   port_ok silent_modem \<and> 18 \<le> length (imei silent_modem) \<and>
   (\<exists>w'. imei_get cgsn_arriving = Some w' \<and> \<not> er_imei (errors w') \<and>
      c_str (imei w') = ''867856030000001'' \<and> sent ''AT+CGSN'' w' = 1) \<and>
   (\<exists>w'. imei_get silent_modem = Some w' \<and> er_imei (errors w') \<and>
      sent ''AT+CGSN'' w' = 10)"
proof -
  let ?a = cgsn_arriving
  let ?b = silent_modem
  let ?s = "sim9_clear_rx_buff
               (?a\<lparr>imei := (imei ?a)[0 := NUL], errors := (errors ?a)\<lparr>er_imei := True\<rparr>\<rparr>)"
  have pa: "port_ok ?a" "18 \<le> length (imei ?a)"
    and pb: "port_ok ?b" "18 \<le> length (imei ?b)"
    by code_simp+
  have ia: "7 \<le> rx_size (usart ?a) \<and> sent ''AT+CGSN'' ?a = 0" by code_simp
  have ib: "7 \<le> rx_size (usart ?b) \<and> sent ''AT+CGSN'' ?b = 0" by code_simp
  note ta = imei_attempts[of ?a, unfolded Let_def]
  note tb = imei_attempts[of ?b, unfolded Let_def]
  from ta pa obtain wa where a: "imei_get ?a = Some wa" by blast
  from tb pb obtain wb where b: "imei_get ?b = Some wb" by blast
  have ea: "case cgsn_attempt 0 ?s of None \<Rightarrow> False
            | Some (ok, msg, v) \<Rightarrow> ok \<and> 14 < strlen msg \<and> c_str msg = ''867856030000001''"
    by code_simp
  have eb: "case imei_get ?b of None \<Rightarrow> False | Some w' \<Rightarrow> er_imei (errors w')"
    by code_simp
  have 1: "\<not> er_imei (errors wa) \<and> c_str (imei wa) = ''867856030000001'' \<and>
           sent ''AT+CGSN'' wa = 1"
  proof -
    from ta a obtain k ok msg v where
      q: "cgsn_attempt k ?s = Some (ok, msg, v)"
      and f: "\<forall>j<k. \<exists>b m u. cgsn_attempt j ?s = Some (b, m, u) \<and> \<not> (b \<and> 14 < strlen m)"
      and w': "wa = v\<lparr>imei := msg,
                   errors := (errors v)\<lparr>er_imei := \<not> (ok \<and> 14 < strlen msg)\<rparr>\<rparr>"
      and s: "7 \<le> rx_size (usart ?a) \<longrightarrow> sent ''AT+CGSN'' wa = sent ''AT+CGSN'' ?a + (k + 1)"
      by blast
    have k0: "k = 0"
    proof (rule ccontr)
      assume "k \<noteq> 0"
      with f obtain b m u where "cgsn_attempt 0 ?s = Some (b, m, u)" "\<not> (b \<and> 14 < strlen m)"
        by auto
      with ea show False by (simp del: cgsn_attempt.simps)
    qed
    with q ea have "ok \<and> 14 < strlen msg \<and> c_str msg = ''867856030000001''"
      by (simp del: cgsn_attempt.simps)
    with w' s k0 ia show ?thesis by simp
  qed
  have 2: "er_imei (errors wb) \<and> sent ''AT+CGSN'' wb = 10"
  proof -
    from tb b obtain k ok msg v where
      e: "(ok \<and> 14 < strlen msg) \<or> k = 9"
      and w': "wb = v\<lparr>imei := msg,
                   errors := (errors v)\<lparr>er_imei := \<not> (ok \<and> 14 < strlen msg)\<rparr>\<rparr>"
      and s: "7 \<le> rx_size (usart ?b) \<longrightarrow> sent ''AT+CGSN'' wb = sent ''AT+CGSN'' ?b + (k + 1)"
      by blast
    from eb b have x: "er_imei (errors wb)" by simp
    with w' have "\<not> (ok \<and> 14 < strlen msg)" by simp
    with e have "k = 9" by blast
    with x s ib show ?thesis by simp
  qed
  from pa pb a b 1 2 show ?thesis by blast
qed

text \<open>
  Claim C10. When a session exists, \<open>sim9_init\<close> returns it as it is: no member, flag
  or buffer changes, whatever port and memory the call would have used. Hence a second
  call, after a first call from any state, changes nothing.
\<close>

theorem sim9_init_idempotent:
  "sim9_init u h (Some w) = Some w \<and>
   sim9_init u2 h2 (sim9_init u1 h1 sim9) = sim9_init u1 h1 sim9"
  by (simp add: sim9_init_def split: option.splits)

subsection \<open>GPRS attach\<close>









subsection \<open>The error flags\<close>

lemma sticky_outside_iff:
  "sticky_outside R w w' \<longleftrightarrow> (\<forall>f. f \<notin> set R \<longrightarrow> err f (errors w) \<longrightarrow> err f (errors w'))"
proof -
  have "set err_flags = UNIV"
  proof -
    have "f \<in> set err_flags" for f by (cases f) (simp_all add: err_flags_def)
    then show ?thesis by auto
  qed
  then show ?thesis by (auto simp: sticky_outside_def list_all_iff)
qed

lemma sticky_trans:
  "sticky_outside R a b \<Longrightarrow> sticky_outside R b c \<Longrightarrow> sticky_outside R a c"
  by (auto simp: sticky_outside_iff)

lemma sticky_mono:
  "sticky_outside R a b \<Longrightarrow> set R \<subseteq> set R' \<Longrightarrow> sticky_outside R' a b"
  by (auto simp: sticky_outside_iff)

lemma sticky_same_errors: "errors b = errors a \<Longrightarrow> sticky_outside R a b"
  by (simp add: sticky_outside_iff)

lemma sticky_kept: "session_kept a b \<Longrightarrow> sticky_outside R a b"
  by (simp add: sticky_outside_iff session_kept_def)

lemma sticky_rx_only: "rx_only a b \<Longrightarrow> sticky_outside R a b"
  by (simp add: rx_only_def sticky_kept)

lemma sticky_field:
  assumes "\<And>f. f \<notin> set R \<Longrightarrow> err f (errors a) \<Longrightarrow> err f (errors b)"
  shows "sticky_outside R a b"
  using assms by (simp add: sticky_outside_iff)

lemma sticky_step:
  "sticky_outside R a b \<Longrightarrow> sticky_outside R' b c \<Longrightarrow> set R \<subseteq> set S \<Longrightarrow> set R' \<subseteq> set S
     \<Longrightarrow> sticky_outside S a c"
  by (auto simp: sticky_outside_iff)

lemma sticky_send_at_P:
  "sim9_send_at_P cmd msg sz type w = Some (ok, msg', w') \<Longrightarrow> sticky_outside R w w'"
  by (rule sticky_kept) (rule sim9_send_at_P_Some(1))

lemma errors_send_at_P:
  "sim9_send_at_P cmd msg sz type w = Some (ok, msg', w') \<Longrightarrow> errors w' = errors w"
  using sim9_send_at_P_Some(1)[of cmd msg sz type w ok msg' w'] by (simp add: session_kept_def)

lemma sticky_escape: "sim9_escape w = Some w' \<Longrightarrow> sticky_outside [F_esc] w w'"
proof -
  assume a: "sim9_escape w = Some w'"
  then obtain w1 where l: "sim9_escape_loop 3 w = Some w1"
    and r: "(if st_connected (status w1) then Some (w1\<lparr>errors := (errors w1)\<lparr>er_esc := True\<rparr>\<rparr>)
             else Some (w1\<lparr>errors := (errors w1)\<lparr>er_esc := False\<rparr>\<rparr>)) = Some w'"
    unfolding sim9_escape_def by (auto simp: Option.bind_eq_Some_conv)
  have w': "w' = w1\<lparr>errors := (errors w1)\<lparr>er_esc := st_connected (status w1)\<rparr>\<rparr>"
    using r by (cases "st_connected (status w1)") simp_all
  from sim9_escape_loop_errors[OF l] have "errors w1 = errors w" .
  then show ?thesis unfolding w' by (simp add: sticky_outside_def err_flags_def)
qed

lemma sticky_imei_loop: "imei_loop n w = Some w' \<Longrightarrow> sticky_outside [F_imei] w w'"
proof (induction n arbitrary: w)
  case 0
  then show ?case by (simp add: sticky_same_errors)
next
  case (Suc n)
  show ?case
  proof (cases "er_imei (errors w)")
    case False
    with Suc.prems show ?thesis by (simp add: sticky_same_errors)
  next
    case True
    with Suc.prems obtain ok msg w1 where
      a: "sim9_send_at_P ''AT+CGSN'' (imei w) IMEI_SIZE SENDAT_TYPE_MSGOK w = Some (ok, msg, w1)"
      and r: "(if ok \<and> 14 < strlen msg
               then imei_loop n (w1\<lparr>imei := msg, errors := (errors w1)\<lparr>er_imei := False\<rparr>\<rparr>)
               else imei_loop n (w1\<lparr>imei := msg\<rparr>)) = Some w'"
      by (auto simp: Option.bind_eq_Some_conv)
    note e = errors_send_at_P[OF a]
    show ?thesis
    proof (cases "ok \<and> 14 < strlen msg")
      case True
      with r have "imei_loop n (w1\<lparr>imei := msg, errors := (errors w1)\<lparr>er_imei := False\<rparr>\<rparr>) = Some w'"
        by simp
      from Suc.IH[OF this] show ?thesis
        by (rule sticky_trans[rotated]) (simp add: e sticky_outside_def err_flags_def)
    next
      case False
      with r have "imei_loop n (w1\<lparr>imei := msg\<rparr>) = Some w'" by (simp split: if_splits)
      from Suc.IH[OF this] show ?thesis
        by (rule sticky_trans[rotated]) (simp add: e sticky_same_errors)
    qed
  qed
qed

lemma sticky_imei_get: "imei_get w = Some w' \<Longrightarrow> sticky_outside [F_imei] w w'"
proof -
  assume "imei_get w = Some w'"
  then have "imei_loop 10 (sim9_clear_rx_buff
                (w\<lparr>imei := (imei w)[0 := NUL], errors := (errors w)\<lparr>er_imei := True\<rparr>\<rparr>)) = Some w'"
    by (simp add: imei_get_def split: if_splits)
  from sticky_imei_loop[OF this] show ?thesis
    by (rule sticky_trans[rotated])
      (simp add: sticky_outside_def err_flags_def sim9_clear_rx_buff_def usart_clear_rx_buffer_def)
qed

lemma sticky_pin_check: "pin_check w = Some w' \<Longrightarrow> sticky_outside [F_pin] w w'"
proof -
  assume "pin_check w = Some w'"
  then obtain ok buffer w1 where
    a: "sim9_send_at_P ''AT+CPIN?'' (malloc w 20) 20 SENDAT_TYPE_MSGOK w = Some (ok, buffer, w1)"
    and r: "(if ok \<and> memcmp_is0 buffer 0 ''+CPIN: READY'' 12
             then Some (w1\<lparr>errors := (errors w1)\<lparr>er_pin := False\<rparr>\<rparr>)
             else Some (w1\<lparr>errors := (errors w1)\<lparr>er_pin := True\<rparr>\<rparr>)) = Some w'"
    unfolding pin_check_def by (auto simp: Option.bind_eq_Some_conv)
  from r obtain x where "w' = w1\<lparr>errors := (errors w1)\<lparr>er_pin := x\<rparr>\<rparr>"
    by (auto split: if_splits)
  with errors_send_at_P[OF a] show ?thesis by (simp add: sticky_outside_def err_flags_def)
qed

lemma sticky_netreg_loop:
  "network_registered_loop n buffer w = Some w' \<Longrightarrow> sticky_outside [F_netreg] w w'"
proof (induction n arbitrary: buffer w)
  case 0
  then show ?case by (simp add: sticky_same_errors)
next
  case (Suc n)
  show ?case
  proof (cases "er_netreg (errors w)")
    case False
    with Suc.prems show ?thesis by (simp add: sticky_same_errors)
  next
    case True
    with Suc.prems obtain ok b' w1 where
      a: "sim9_send_at_P ''AT+CGREG?'' buffer 20 SENDAT_TYPE_MSGOK (delay_ms 2000 w)
            = Some (ok, b', w1)"
      and r: "(if ok \<and> memcmp_is0 b' 0 ''+CGREG: 0,1'' 11
               then network_registered_loop n b' (w1\<lparr>errors := (errors w1)\<lparr>er_netreg := False\<rparr>\<rparr>)
               else network_registered_loop n b' w1) = Some w'"
      by (auto simp: Option.bind_eq_Some_conv)
    have e: "errors w1 = errors w"
      using errors_send_at_P[OF a] rx_only_delay[of w 2000]
      by (simp add: rx_only_def session_kept_def)
    show ?thesis
    proof (cases "ok \<and> memcmp_is0 b' 0 ''+CGREG: 0,1'' 11")
      case True
      with r have "network_registered_loop n b' (w1\<lparr>errors := (errors w1)\<lparr>er_netreg := False\<rparr>\<rparr>)
                     = Some w'" by simp
      from Suc.IH[OF this] show ?thesis
        by (rule sticky_trans[rotated]) (simp add: e sticky_outside_def err_flags_def)
    next
      case False
      with r have "network_registered_loop n b' w1 = Some w'" by (simp split: if_splits)
      from Suc.IH[OF this] show ?thesis
        by (rule sticky_trans[rotated]) (simp add: e sticky_same_errors)
    qed
  qed
qed

lemma sticky_network_registered:
  "network_registered w = Some w' \<Longrightarrow> sticky_outside [F_netreg] w w'"
  unfolding network_registered_def
  by (drule sticky_netreg_loop, erule sticky_trans[rotated]) (simp add: sticky_outside_def err_flags_def)

lemma sticky_off: "sim9_off w = Some w' \<Longrightarrow> sticky_outside [] w w'"
proof -
  assume "sim9_off w = Some w'"
  then obtain w1 found b w2 where a: "sim9_send_P (''AT+CPOWD=1'' @ [CR]) w = Some w1"
    and s: "sim9_searchfor_P ''NORMAL POWER DOWN'' 5 None 0 RELAX w1 = Some (found, b, w2)"
    and r: "(if found then Some (w2\<lparr>status := (status w2)\<lparr>st_ready := False\<rparr>\<rparr>)
             else Some (w2\<lparr>errors := (errors w2)\<lparr>er_off := True\<rparr>\<rparr>)) = Some w'"
    unfolding sim9_off_def by (auto simp: Option.bind_eq_Some_conv)
  have e: "errors w2 = errors w"
    using send_P_Some(1)[OF a] rx_only_searchfor_P[OF s]
    by (simp add: rx_only_def session_kept_def)
  from r show ?thesis
    by (cases found) (auto simp: e sticky_outside_def err_flags_def)
qed

lemma sticky_check_cgatt: "check_cgatt w = Some w' \<Longrightarrow> sticky_outside [] w w'"
proof -
  assume "check_cgatt w = Some w'"
  then obtain ok buffer w1 where
    a: "sim9_send_at_P ''AT+CGATT?'' (malloc w 15) 15 SENDAT_TYPE_MSGOK w = Some (ok, buffer, w1)"
    and r: "(if ok then
       (if \<not> memcmp_is0 buffer 0 ''+CGATT: 1'' 9
        then Some (w1\<lparr>status := (status w1)\<lparr>st_gprs := False\<rparr>\<rparr>)
        else Some (w1\<lparr>status := (status w1)\<lparr>st_gprs := True\<rparr>\<rparr>))
     else Some (w1\<lparr>errors := (errors w1)\<lparr>er_gprs := True\<rparr>\<rparr>)) = Some w'"
    unfolding check_cgatt_def by (auto simp: Option.bind_eq_Some_conv)
  note e = errors_send_at_P[OF a]
  from r consider "w' = w1\<lparr>status := (status w1)\<lparr>st_gprs := False\<rparr>\<rparr>"
    | "w' = w1\<lparr>status := (status w1)\<lparr>st_gprs := True\<rparr>\<rparr>"
    | "w' = w1\<lparr>errors := (errors w1)\<lparr>er_gprs := True\<rparr>\<rparr>"
    by (auto split: if_splits)
  then show ?thesis by cases (simp_all add: e sticky_outside_def err_flags_def)
qed

lemma sticky_gprs_connect_loop: "gprs_connect_loop n w = Some w' \<Longrightarrow> sticky_outside [] w w'"
proof (induction n arbitrary: w)
  case 0
  then show ?case by (simp add: sticky_check_cgatt)
next
  case (Suc n)
  then obtain w1 where c: "check_cgatt w = Some w1"
    and r: "(if \<not> st_gprs (status w1) then gprs_connect_loop n w1 else Some w1) = Some w'"
    by (auto simp: Option.bind_eq_Some_conv)
  from r Suc.IH[of w1] sticky_check_cgatt[OF c] show ?case
    by (cases "st_gprs (status w1)") (auto intro: sticky_trans)
qed

lemma sticky_gprs_disconnect_loop:
  "gprs_disconnect_loop n w = Some w' \<Longrightarrow> sticky_outside [] w w'"
proof (induction n arbitrary: w)
  case 0
  then show ?case by (simp add: sticky_check_cgatt)
next
  case (Suc n)
  then obtain w1 where c: "check_cgatt w = Some w1"
    and r: "(if st_gprs (status w1) then gprs_disconnect_loop n w1 else Some w1) = Some w'"
    by (auto simp: Option.bind_eq_Some_conv)
  from r Suc.IH[of w1] sticky_check_cgatt[OF c] show ?case
    by (cases "st_gprs (status w1)") (auto intro: sticky_trans)
qed

lemma sticky_gprs_connect: "gprs_connect w = Some w' \<Longrightarrow> sticky_outside [F_gprs] w w'"
proof -
  let ?w0 = "w\<lparr>errors := (errors w)\<lparr>er_gprs := False\<rparr>\<rparr>"
  assume "gprs_connect w = Some w'"
  then obtain ok msg w1 where
    a: "sim9_send_at_P ''AT+CGATT=1'' [] 0 SENDAT_TYPE_OK ?w0 = Some (ok, msg, w1)"
    and r: "(if ok then gprs_connect_loop 5 w1
             else Some (w1\<lparr>errors := (errors w1)\<lparr>er_gprs := True\<rparr>\<rparr>)) = Some w'"
    unfolding gprs_connect_def by (auto simp: Option.bind_eq_Some_conv)
  have 0: "sticky_outside [F_gprs] w w1"
    using errors_send_at_P[OF a] by (simp add: sticky_outside_def err_flags_def)
  have "sticky_outside [] w1 w'"
    using r sticky_gprs_connect_loop[of 5 w1 w']
    by (cases ok) (auto simp: sticky_outside_def err_flags_def)
  with 0 show ?thesis by (rule sticky_step) simp_all
qed

lemma sticky_gprs_disconnect: "gprs_disconnect w = Some w' \<Longrightarrow> sticky_outside [F_gprs] w w'"
proof -
  let ?w0 = "w\<lparr>errors := (errors w)\<lparr>er_gprs := False\<rparr>\<rparr>"
  assume "gprs_disconnect w = Some w'"
  then obtain ok msg w1 where
    a: "sim9_send_at_P ''AT+CGATT=0'' [] 0 SENDAT_TYPE_OK ?w0 = Some (ok, msg, w1)"
    and r: "(if ok then gprs_disconnect_loop 5 w1
             else Some (w1\<lparr>errors := (errors w1)\<lparr>er_gprs := True\<rparr>\<rparr>)) = Some w'"
    unfolding gprs_disconnect_def by (auto simp: Option.bind_eq_Some_conv)
  have 0: "sticky_outside [F_gprs] w w1"
    using errors_send_at_P[OF a] by (simp add: sticky_outside_def err_flags_def)
  have "sticky_outside [] w1 w'"
    using r sticky_gprs_disconnect_loop[of 5 w1 w']
    by (cases ok) (auto simp: sticky_outside_def err_flags_def)
  with 0 show ?thesis by (rule sticky_step) simp_all
qed

lemma sticky_apn_setup: "apn_setup w = Some w' \<Longrightarrow> sticky_outside [] w w'"
proof -
  assume "apn_setup w = Some w'"
  then obtain ok msg w1 found sb w2 where
    a: "sim9_send_at_P ''AT+COPS?'' [] 0 SENDAT_TYPE_NONE w = Some (ok, msg, w1)"
    and s: "sim9_searchfor ''+COPS:'' 5 (Some (malloc w 30)) 30 RELAX w1 = Some (found, sb, w2)"
    and r: "(if found then
       (case sb of
          None \<Rightarrow> None
        | Some s \<Rightarrow> do {
            (found', b, w3) \<leftarrow>
              sim9_searchfor_P ''OK'' 5 None 0 RELAX
                (w2\<lparr>status := (status w2)\<lparr>st_provider :=
                   (if memcmp_is0 s 12 ''I TIM'' 5 then 3
                    else if memcmp_is0 s 13 ''odafo'' 5 then 2
                    else 1)\<rparr>\<rparr>);
            Some w3
          })
     else Some (w2\<lparr>status := (status w2)\<lparr>st_provider := 0\<rparr>,
                   errors := (errors w2)\<lparr>er_apn := True\<rparr>\<rparr>)) = Some w'"
    unfolding apn_setup_def by (auto simp: Option.bind_eq_Some_conv)
  have e: "errors w2 = errors w"
    using errors_send_at_P[OF a] rx_only_searchfor[OF s]
    by (simp add: rx_only_def session_kept_def)
  show ?thesis
  proof (cases found)
    case False
    with r show ?thesis by (auto simp: e sticky_outside_def err_flags_def)
  next
    case True
    with r obtain p found' b where
      "sim9_searchfor_P ''OK'' 5 None 0 RELAX (w2\<lparr>status := (status w2)\<lparr>st_provider := p\<rparr>\<rparr>)
         = Some (found', b, w')"
      by (auto simp: Option.bind_eq_Some_conv split: option.splits)
    from rx_only_searchfor_P[OF this] e have "errors w' = errors w"
      by (simp add: rx_only_def session_kept_def)
    then show ?thesis by (rule sticky_same_errors)
  qed
qed

lemma sticky_gprs_wireless_connection:
  "gprs_wireless_connection w = Some w' \<Longrightarrow> sticky_outside [] w w'"
proof -
  assume "gprs_wireless_connection w = Some w'"
  then obtain ok msg w1 where
    a: "sim9_send_at_P ''AT+CIICR'' [] 0 SENDAT_TYPE_OK w = Some (ok, msg, w1)"
    and r: "(if \<not> ok then Some (w1\<lparr>errors := (errors w1)\<lparr>er_tcpip := True\<rparr>\<rparr>) else Some w1)
              = Some w'"
    unfolding gprs_wireless_connection_def by (auto simp: Option.bind_eq_Some_conv)
  from r errors_send_at_P[OF a] show ?thesis
    by (cases ok) (auto simp: sticky_outside_def err_flags_def)
qed

lemma sticky_tcpip_on: "sim9_tcpip_on w = Some w' \<Longrightarrow> sticky_outside [F_tcpip, F_gprs] w w'"
proof -
  let ?w0 = "w\<lparr>errors := (errors w)\<lparr>er_tcpip := False\<rparr>\<rparr>"
  let ?S = "[F_tcpip, F_gprs]"
  assume "sim9_tcpip_on w = Some w'"
  then obtain ok1 m1 w1 ok2 m2 w2 w3 w4 w5 w6 where
    a1: "sim9_send_at_P ''AT+CIPCCFG?'' [] 0 SENDAT_TYPE_OK ?w0 = Some (ok1, m1, w1)"
    and a2: "(if st_tsmode (status w1)
                then sim9_send_at_P ''AT+CIPMODE=1'' [] 0 SENDAT_TYPE_OK w1
                else sim9_send_at_P ''AT+CIPMODE=0'' [] 0 SENDAT_TYPE_OK w1) = Some (ok2, m2, w2)"
    and a3: "gprs_connect w2 = Some w3"
    and a4: "(if st_gprs (status w3) then apn_setup w3 else Some w3) = Some w4"
    and a5: "(if st_provider (status w4) = 1 then do {
               (ok, m, w') \<leftarrow> sim9_send_at_P cstt_others [] 0 SENDAT_TYPE_OK w4;
               Some w'
             } else if st_provider (status w4) = 2 then do {
               (ok, m, w') \<leftarrow> sim9_send_at_P (''AT+CSTT='' @ [CHR 0x22] @ ''web.omnitel.it'' @ [CHR 0x22])
                                [] 0 SENDAT_TYPE_OK w4;
               Some w'
             } else if st_provider (status w4) = 3 then do {
               (ok, m, w') \<leftarrow> sim9_send_at_P (''AT+CSTT='' @ [CHR 0x22] @ ''ibox.tim.it'' @ [CHR 0x22])
                                [] 0 SENDAT_TYPE_OK w4;
               Some w'
             } else Some (w4\<lparr>errors := (errors w4)\<lparr>er_apn := True\<rparr>\<rparr>)) = Some w5"
    and a6: "(if errors_all_is0 w5 then gprs_wireless_connection w5 else Some w5) = Some w6"
    and a7: "(if errors_all_is0 w6 then do {
       (ok, s, w7) \<leftarrow> sim9_send_at_P ''AT+CIFSR'' (malloc w6 30) 30 SENDAT_TYPE_MSG w6;
       Some w7
     } else Some w6) = Some w'"
    unfolding sim9_tcpip_on_def by (auto simp: Option.bind_eq_Some_conv)
  have s1: "sticky_outside ?S w w1"
    using errors_send_at_P[OF a1] by (simp add: sticky_outside_def err_flags_def)
  have s2: "sticky_outside ?S w1 w2"
    using a2 by (auto split: if_splits intro: sticky_send_at_P)
  have s3: "sticky_outside ?S w2 w3"
    using sticky_gprs_connect[OF a3] by (rule sticky_mono) simp
  have s4: "sticky_outside ?S w3 w4"
    using a4 by (auto split: if_splits dest: sticky_apn_setup intro: sticky_mono sticky_same_errors)
  have s5: "sticky_outside ?S w4 w5"
    using a5
    by (auto simp: Option.bind_eq_Some_conv sticky_outside_def[of _ w4 "w4\<lparr>errors := _\<rparr>"] err_flags_def
        split: if_splits intro: sticky_send_at_P)
  have s6: "sticky_outside ?S w5 w6"
    using a6
    by (auto split: if_splits dest: sticky_gprs_wireless_connection
        intro: sticky_mono sticky_same_errors)
  have s7: "sticky_outside ?S w6 w'"
    using a7
    by (auto simp: Option.bind_eq_Some_conv split: if_splits
        intro: sticky_send_at_P sticky_same_errors)
  from s1 s2 s3 s4 s5 s6 s7 show ?thesis by (blast intro: sticky_trans)
qed

text \<open>
  Claim C4, as amended. An error bit that is set stays set through every operation
  outside its own domain. The operations that can reset a bit, besides the
  initialisation and the power-on, are those of the bit's domain: \<open>sim9_escape\<close>
  rewrites esc, the identity retrieval imei, \<open>pin_check\<close> pin and \<open>network_registered\<close>
  netreg with the outcome of the run; \<open>gprs_connect\<close> and \<open>gprs_disconnect\<close> reset gprs
  on entry; \<open>sim9_tcpip_on\<close> resets tcpip on entry and gprs through \<open>gprs_connect\<close>. The
  sending, reading, searching and command functions, \<open>sim9_off\<close>, \<open>check_cgatt\<close>,
  \<open>apn_setup\<close> and \<open>gprs_wireless_connection\<close> reset no bit at all.
\<close>

theorem error_flags_cleared_only_in_own_domain:
  "(\<forall>s. sticky_outside [] w (sim9_send s w)) \<and>
   sticky_outside [] w (sim9_clear_rx_buff w) \<and>
   (\<forall>s w'. sim9_send_P s w = Some w' \<longrightarrow> sticky_outside [] w w') \<and>
   (\<forall>b sz timeout len b' w'.
      sim9_msg b sz timeout w = Some (len, b', w') \<longrightarrow> sticky_outside [] w w') \<and>
   (\<forall>s count extbuff extsize type ok b' w'.
      sim9_searchfor s count extbuff extsize type w = Some (ok, b', w')
        \<longrightarrow> sticky_outside [] w w') \<and>
   (\<forall>s count extbuff extsize type ok b' w'.
      sim9_searchfor_P s count extbuff extsize type w = Some (ok, b', w')
        \<longrightarrow> sticky_outside [] w w') \<and>
   (\<forall>cmd msg sz type ok msg' w'.
      sim9_send_at cmd msg sz type w = Some (ok, msg', w') \<longrightarrow> sticky_outside [] w w') \<and>
   (\<forall>cmd msg sz type ok msg' w'.
      sim9_send_at_P cmd msg sz type w = Some (ok, msg', w') \<longrightarrow> sticky_outside [] w w') \<and>
   (\<forall>w'. sim9_off w = Some w' \<longrightarrow> sticky_outside [] w w') \<and>
   (\<forall>w'. check_cgatt w = Some w' \<longrightarrow> sticky_outside [] w w') \<and>
   (\<forall>w'. apn_setup w = Some w' \<longrightarrow> sticky_outside [] w w') \<and>
   (\<forall>w'. gprs_wireless_connection w = Some w' \<longrightarrow> sticky_outside [] w w') \<and>
   (\<forall>w'. sim9_escape w = Some w' \<longrightarrow> sticky_outside [F_esc] w w') \<and>
   (\<forall>w'. imei_get w = Some w' \<longrightarrow> sticky_outside [F_imei] w w') \<and>
   (\<forall>w'. pin_check w = Some w' \<longrightarrow> sticky_outside [F_pin] w w') \<and>
   (\<forall>w'. network_registered w = Some w' \<longrightarrow> sticky_outside [F_netreg] w w') \<and>
   (\<forall>w'. gprs_connect w = Some w' \<longrightarrow> sticky_outside [F_gprs] w w') \<and>
   (\<forall>w'. gprs_disconnect w = Some w' \<longrightarrow> sticky_outside [F_gprs] w w') \<and>
   (\<forall>w'. sim9_tcpip_on w = Some w' \<longrightarrow> sticky_outside [F_tcpip, F_gprs] w w')"
proof -
  have 0: "(\<forall>s. sticky_outside [] w (sim9_send s w)) \<and>
           sticky_outside [] w (sim9_clear_rx_buff w)"
    by (simp add: sticky_outside_def err_flags_def sim9_send_def usart_printstr_def
        sim9_clear_rx_buff_def usart_clear_rx_buffer_def)
  have 1: "\<forall>s w'. sim9_send_P s w = Some w' \<longrightarrow> sticky_outside [] w w'"
    by (auto intro: sticky_kept send_P_Some(1))
  have 2: "\<forall>b sz timeout len b' w'.
      sim9_msg b sz timeout w = Some (len, b', w') \<longrightarrow> sticky_outside [] w w'"
    by (auto intro: sticky_rx_only rx_only_msg)
  have 3: "\<forall>s count extbuff extsize type ok b' w'.
      sim9_searchfor s count extbuff extsize type w = Some (ok, b', w')
        \<longrightarrow> sticky_outside [] w w'"
    by (auto intro: sticky_rx_only rx_only_searchfor)
  have 4: "\<forall>s count extbuff extsize type ok b' w'.
      sim9_searchfor_P s count extbuff extsize type w = Some (ok, b', w')
        \<longrightarrow> sticky_outside [] w w'"
    by (auto intro: sticky_rx_only rx_only_searchfor_P)
  have 5: "\<forall>cmd msg sz type ok msg' w'.
      sim9_send_at cmd msg sz type w = Some (ok, msg', w') \<longrightarrow> sticky_outside [] w w'"
    by (auto intro: sticky_kept sim9_send_at_Some(1))
  have 6: "\<forall>cmd msg sz type ok msg' w'.
      sim9_send_at_P cmd msg sz type w = Some (ok, msg', w') \<longrightarrow> sticky_outside [] w w'"
    by (auto intro: sticky_send_at_P)
  from 0 1 2 3 4 5 6 show ?thesis
    by (simp add: sticky_off sticky_check_cgatt sticky_apn_setup sticky_gprs_wireless_connection
        sticky_escape sticky_imei_get sticky_pin_check sticky_network_registered
        sticky_gprs_connect sticky_gprs_disconnect sticky_tcpip_on)
qed

text \<open>The theorem at a session with the pin and gprs errors recorded, on which the
  attach succeeds: the pin error is still recorded afterwards.\<close>

theorem error_flags_cleared_only_in_own_domain_witness:
  "er_pin (errors (failed_before attached_at_once)) \<and>
   (\<exists>w'. gprs_connect (failed_before attached_at_once) = Some w' \<and> er_pin (errors w'))"
proof -
  let ?w = "failed_before attached_at_once"
  have p: "er_pin (errors ?w)" by code_simp
  have "case gprs_connect ?w of None \<Rightarrow> False | Some w' \<Rightarrow> True" by code_simp
  then obtain w' where g: "gprs_connect ?w = Some w'" by (auto split: option.splits)
  have "sticky_outside [F_gprs] ?w w'"
    using error_flags_cleared_only_in_own_domain[of ?w] g
    by blast
  with p have "er_pin (errors w')" by (auto simp: sticky_outside_iff dest: spec[of _ F_pin])
  with p g show ?thesis by blast
qed

text \<open>The claim as stated fails: on the same session, where the gprs error is recorded,
  \<open>gprs_connect\<close> returns with the gprs error cleared.\<close>

theorem gprs_connect_clears_gprs_error_counterexample:
  "er_gprs (errors (failed_before attached_at_once)) \<and>
   (case gprs_connect (failed_before attached_at_once) of
      None \<Rightarrow> False
    | Some w' \<Rightarrow> \<not> er_gprs (errors w') \<and> st_gprs (status w'))"
  by code_simp

end
